theory Spec2Isabelle
  imports Complex_Main "HOL-Library.Word"
begin

section \<open>The speech segmenter of \<open>alternative_stt.py\<close>\<close>

text \<open>
  The development embeds \<open>SimpleAudioRecorder\<close>: the silence detector \<open>_is_silence\<close>,
  the capture loop \<open>_record_audio\<close> with its transcription block, and the lifecycle
  methods \<open>start\<close> and \<open>stop\<close>, together with the callback \<open>process_text\<close> of
  \<open>main_typer_assistant_alt.py\<close>.

  Conventions of the embedding.
  \<^item> A frame is the list of int16 samples that \<open>np.frombuffer(audio_chunk, dtype=np.int16)\<close>
    reads from the bytes of one \<open>stream.read\<close>.
  \<^item> A float is NaN, an infinity or a real number. Every float32 operation of NumPy and
    every double operation of Python rounds its exact result to the nearest value of the
    format, ties to even, with the format's subnormal range and its overflow to infinity.
    The sign of zero is not modelled.
  \<^item> The configured \<open>silence_duration\<close> is read as the nearest double, and so are the
    sample rate and the chunk size where Python converts them (PyAudio has taken both as C
    integers when the stream was opened, so the conversion cannot overflow).
  \<^item> The comparison with \<open>silence_threshold\<close> is made on the exact values of the two
    floats, the float32 promoted to double, as NumPy's scalars did before version 2. From
    version 2 on NumPy casts the threshold to float32 first, which changes the outcome
    only where the computed value is the float32 nearest to the threshold.
  \<^item> A Python \<open>str\<close> is the list of its code points.
  \<^item> The microphone is a list of reads. Each read carries the frame and whether another
    thread called \<open>stop()\<close> while the read was blocked. When the list is used up the loop
    is blocked in \<open>stream.read\<close>, which is the status \<open>Reading\<close>.
  \<^item> What the loop does to the outside (prints, files, model and callback calls) is
    recorded in a trace.
\<close>

subsection \<open>Data\<close>

type_synonym sample = "16 word"
type_synonym frame = "sample list"
type_synonym pystr = "nat list"

datatype npfloat = NaN | PInf | NInf | Val real

datatype exn =
    RuntimeError
  | ZeroDivisionError
  | FileNotFoundError
  | UserError nat
  | SystemExit nat

text \<open>\<open>isinstance(e, Exception)\<close>: \<open>SystemExit\<close> derives from \<open>BaseException\<close> only.\<close>

fun is_Exception :: "exn \<Rightarrow> bool" where
  "is_Exception (SystemExit _) = False"
| "is_Exception _ = True"

record config =
  chunk_size :: int
  sample_rate :: int
  channels :: int
  silence_threshold :: real
  silence_duration :: real
  print_transcription_time :: bool

record wav =
  nchannels :: int
  sampwidth :: int
  framerate :: int
  pcm :: "sample list"

datatype thread = Thread (ident: nat) (is_alive: bool)

record recorder =
  is_recording :: bool
  recording_thread :: "thread option"

datatype event =
    StreamOpen
  | PrintListening
  | PrintSpeechDetected
  | TempFile nat
  | WriteWav nat "frame list"
  | Transcribe nat
  | PrintTranscriptionTime
  | Callback pystr
  | PrintTranscriptionError exn
  | Unlink nat
  | StreamClose

record world =
  ctl :: recorder
  files :: "nat \<rightharpoonup> wav"
  next_tmp :: nat
  trace :: "event list"

text \<open>The three locals of the outer loop body: \<open>frames\<close>, \<open>silence_count\<close>, \<open>speech_detected\<close>.\<close>

record capture =
  frames :: "frame list"
  silence_count :: nat
  speech_detected :: bool

datatype read = Read (data: frame) (stopped: bool)

datatype flow = Continue | Break

datatype status =
    Reading world capture
  | Returned world
  | Raised exn world

type_synonym model = "wav \<Rightarrow> exn + pystr"
type_synonym callback = "pystr \<Rightarrow> recorder \<Rightarrow> exn option \<times> recorder"

subsection \<open>Floating point\<close>

text \<open>Rounding to the nearest integer, ties to the even one.\<close>

definition rne :: "real \<Rightarrow> int" where
  "rne y =
     (let n = \<lfloor>y\<rfloor>; d = y - real_of_int n
      in if d < 1 / 2 then n else if 1 / 2 < d then n + 1 else if even n then n else n + 1)"

text \<open>
  Rounding to a binary format of precision \<open>p\<close>, with \<open>2 ^ emin\<close> the smallest positive
  value and \<open>2 ^ emax\<close> the first magnitude that overflows. The unit in the last place
  follows the binade of \<open>x\<close> and stays at \<open>2 ^ emin\<close> in the subnormal range.
\<close>

definition ieee_round :: "nat \<Rightarrow> int \<Rightarrow> int \<Rightarrow> real \<Rightarrow> npfloat" where
  "ieee_round p emin emax x =
     (if x = 0 then Val 0
      else let k = max (\<lfloor>log 2 \<bar>x\<bar>\<rfloor> - (int p - 1)) emin;
               r = real_of_int (rne (x / 2 powr real_of_int k)) * 2 powr real_of_int k
           in if 2 powr real_of_int emax \<le> \<bar>r\<bar> then (if 0 < x then PInf else NInf) else Val r)"

definition float32 :: "real \<Rightarrow> npfloat" where
  "float32 = ieee_round 24 (- 149) 128"

definition float64 :: "real \<Rightarrow> npfloat" where
  "float64 = ieee_round 53 (- 1074) 1024"

text \<open>Sum, product and quotient of two floats, rounded by \<open>rnd\<close>.\<close>

fun fadd :: "(real \<Rightarrow> npfloat) \<Rightarrow> npfloat \<Rightarrow> npfloat \<Rightarrow> npfloat" where
  "fadd rnd (Val a) (Val b) = rnd (a + b)"
| "fadd rnd NaN b = NaN"
| "fadd rnd a NaN = NaN"
| "fadd rnd PInf NInf = NaN"
| "fadd rnd NInf PInf = NaN"
| "fadd rnd PInf b = PInf"
| "fadd rnd NInf b = NInf"
| "fadd rnd a PInf = PInf"
| "fadd rnd a NInf = NInf"

fun fmul :: "(real \<Rightarrow> npfloat) \<Rightarrow> npfloat \<Rightarrow> npfloat \<Rightarrow> npfloat" where
  "fmul rnd (Val a) (Val b) = rnd (a * b)"
| "fmul rnd NaN b = NaN"
| "fmul rnd a NaN = NaN"
| "fmul rnd PInf (Val b) = (if b = 0 then NaN else if 0 < b then PInf else NInf)"
| "fmul rnd NInf (Val b) = (if b = 0 then NaN else if 0 < b then NInf else PInf)"
| "fmul rnd (Val a) PInf = (if a = 0 then NaN else if 0 < a then PInf else NInf)"
| "fmul rnd (Val a) NInf = (if a = 0 then NaN else if 0 < a then NInf else PInf)"
| "fmul rnd PInf PInf = PInf"
| "fmul rnd NInf NInf = PInf"
| "fmul rnd PInf NInf = NInf"
| "fmul rnd NInf PInf = NInf"

fun fdiv :: "(real \<Rightarrow> npfloat) \<Rightarrow> npfloat \<Rightarrow> npfloat \<Rightarrow> npfloat" where
  "fdiv rnd (Val a) (Val b) =
     (if b = 0 then (if a = 0 then NaN else if 0 < a then PInf else NInf) else rnd (a / b))"
| "fdiv rnd NaN b = NaN"
| "fdiv rnd a NaN = NaN"
| "fdiv rnd (Val a) b = Val 0"
| "fdiv rnd PInf (Val b) = (if 0 \<le> b then PInf else NInf)"
| "fdiv rnd NInf (Val b) = (if 0 \<le> b then NInf else PInf)"
| "fdiv rnd a b = NaN"

text \<open>A value of any format cast to float32.\<close>

fun cast32 :: "npfloat \<Rightarrow> npfloat" where
  "cast32 (Val x) = float32 x"
| "cast32 a = a"

abbreviation np_add :: "npfloat \<Rightarrow> npfloat \<Rightarrow> npfloat" where
  "np_add \<equiv> fadd float32"

subsection \<open>\<open>_is_silence\<close>\<close>

text \<open>
  \<open>np.mean\<close> adds the float32 array with \<open>np.add.reduce\<close>, whose inner loop is NumPy's
  pairwise summation: below 8 elements a plain loop, up to 128 elements eight running
  sums over blocks of eight, combined as a tree, then the remainder; above 128 elements
  the array is halved at a multiple of eight. \<open>lanes\<close> is the loop over the blocks.
\<close>

function lanes :: "npfloat list \<Rightarrow> npfloat list \<Rightarrow> npfloat list" where
  "lanes r xs = (if length xs < 8 then r else lanes (map2 np_add r (take 8 xs)) (drop 8 xs))"
  by pat_completeness auto
termination
  by (relation "measure (\<lambda>(r, xs). length xs)") auto

declare lanes.simps [simp del]

function pairwise_sum :: "npfloat list \<Rightarrow> npfloat" where
  "pairwise_sum a =
     (let n = length a
      in if n < 8 then foldl np_add (Val 0) a
         else if n \<le> 128 then
           (let m = n - n mod 8;
                r = lanes (take 8 a) (drop 8 (take m a));
                res = np_add (np_add (np_add (r ! 0) (r ! 1)) (np_add (r ! 2) (r ! 3)))
                             (np_add (np_add (r ! 4) (r ! 5)) (np_add (r ! 6) (r ! 7)))
            in foldl np_add res (drop m a))
         else
           (let n2 = n div 2 - (n div 2) mod 8
            in np_add (pairwise_sum (take n2 a)) (pairwise_sum (drop n2 a))))"
  by pat_completeness auto
termination
  by (relation "measure length") auto

declare pairwise_sum.simps [simp del]

text \<open>The reduction starts from the zero of the addition.\<close>

definition add_reduce :: "npfloat list \<Rightarrow> npfloat" where
  "add_reduce a = np_add (Val 0) (pairwise_sum a)"

text \<open>
  \<open>np.mean\<close>: the float32 sum divided by the count in double precision, the quotient cast
  back to float32. The count is converted exactly (it is below \<open>2 ^ 53\<close>). An empty
  array gives \<open>0 / 0\<close>, which is NaN.
\<close>

definition np_mean :: "npfloat list \<Rightarrow> npfloat" where
  "np_mean a = cast32 (fdiv float64 (add_reduce a) (Val (real (length a))))"

fun np_sqrt :: "npfloat \<Rightarrow> npfloat" where
  "np_sqrt (Val x) = (if x < 0 then NaN else float32 (sqrt x))"
| "np_sqrt PInf = PInf"
| "np_sqrt a = NaN"

text \<open>Division by \<open>32768.0\<close>, a power of two: exact in float32 and in double.\<close>

fun np_div :: "npfloat \<Rightarrow> real \<Rightarrow> npfloat" where
  "np_div (Val x) d = Val (x / d)"
| "np_div a d = a"

text \<open>Every comparison with NaN is false.\<close>

fun np_less :: "npfloat \<Rightarrow> real \<Rightarrow> bool" where
  "np_less (Val x) t = (x < t)"
| "np_less NInf t = True"
| "np_less a t = False"

text \<open>
  \<open>audio_data.astype(np.float32) ** 2\<close> squares each sample in float32; the mean, the
  root and the division follow.
\<close>

definition normalized_rms :: "frame \<Rightarrow> npfloat" where
  "normalized_rms audio_chunk =
     (let audio_data = map (\<lambda>s. real_of_int (sint s)) audio_chunk;
          rms = np_sqrt (np_mean (map (\<lambda>x. float32 (x ^ 2)) audio_data))
      in np_div rms 32768)"

definition is_silence :: "config \<Rightarrow> frame \<Rightarrow> bool" where
  "is_silence cfg audio_chunk = np_less (normalized_rms audio_chunk) (silence_threshold cfg)"

subsection \<open>\<open>str.strip\<close>\<close>

text \<open>The code points for which \<open>str.isspace\<close> holds.\<close>

definition py_isspace :: "nat \<Rightarrow> bool" where
  "py_isspace ch =
     ((9 \<le> ch \<and> ch \<le> 13) \<or> (28 \<le> ch \<and> ch \<le> 32) \<or> ch = 133 \<or> ch = 160 \<or> ch = 5760
      \<or> (8192 \<le> ch \<and> ch \<le> 8202) \<or> ch = 8232 \<or> ch = 8233 \<or> ch = 8239 \<or> ch = 8287
      \<or> ch = 12288)"

definition strip :: "pystr \<Rightarrow> pystr" where
  "strip s = rev (dropWhile py_isspace (rev (dropWhile py_isspace s)))"

subsection \<open>\<open>start\<close> and \<open>stop\<close>\<close>

definition start :: "recorder \<Rightarrow> recorder" where
  "start r = r\<lparr>is_recording := True\<rparr>"

text \<open>
  \<open>Thread.join\<close> called by thread \<open>me\<close>: joining the current thread raises
  \<open>RuntimeError\<close>; joining another thread returns once that thread has ended.
\<close>

definition join :: "nat \<Rightarrow> thread \<Rightarrow> exn option" where
  "join me t = (if ident t = me then Some RuntimeError else None)"

text \<open>\<open>stop\<close>, called by thread \<open>me\<close>. The flag is cleared before the join is attempted.\<close>

definition stop :: "nat \<Rightarrow> recorder \<Rightarrow> exn option \<times> recorder" where
  "stop me r =
     (let r' = r\<lparr>is_recording := False\<rparr>
      in case recording_thread r' of
           None \<Rightarrow> (None, r')
         | Some t \<Rightarrow> if is_alive t then (join me t, r') else (None, r'))"

subsection \<open>\<open>process_text\<close> of \<open>main_typer_assistant_alt.py\<close>\<close>

text \<open>
  The callback the program installs, run by thread \<open>me\<close>. The wake-word test and the
  assistant are collaborators outside the two source files: \<open>wake\<close> says whether the
  assistant's name occurs in the text, \<open>assistant\<close> is \<open>assistant.process_text\<close>.
  Every \<open>Exception\<close> raised inside the \<open>try\<close> is caught and printed.
\<close>

definition process_text ::
  "nat \<Rightarrow> (pystr \<Rightarrow> bool) \<Rightarrow> (pystr \<Rightarrow> exn + pystr) \<Rightarrow> callback" where
  "process_text me wake assistant text r =
     (if \<not> wake text then (None, r)
      else case stop me r of
             (Some e, r1) \<Rightarrow> (if is_Exception e then (None, r1) else (Some e, r1))
           | (None, r1) \<Rightarrow>
               (case assistant text of
                  Inl e \<Rightarrow> (if is_Exception e then (None, r1) else (Some e, r1))
                | Inr output \<Rightarrow> (None, start r1)))"

subsection \<open>\<open>_record_audio\<close>\<close>

definition say :: "event \<Rightarrow> world \<Rightarrow> world" where
  "say e w = w\<lparr>trace := trace w @ [e]\<rparr>"

text \<open>
  The right-hand side of the comparison in the inner loop,
  \<open>self.silence_duration * self.sample_rate / self.chunk_size\<close>, in Python's doubles:
  the integers are converted to double, the product is rounded, then the quotient. A zero
  chunk size raises.
\<close>

definition silence_quotient :: "config \<Rightarrow> npfloat" where
  "silence_quotient cfg =
     fdiv float64
       (fmul float64 (float64 (silence_duration cfg)) (float64 (real_of_int (sample_rate cfg))))
       (float64 (real_of_int (chunk_size cfg)))"

definition silence_limit :: "config \<Rightarrow> exn + npfloat" where
  "silence_limit cfg =
     (if chunk_size cfg = 0 then Inl ZeroDivisionError else Inr (silence_quotient cfg))"

text \<open>\<open>silence_count > bound\<close>: Python compares an integer with a float exactly.\<close>

fun int_gt :: "nat \<Rightarrow> npfloat \<Rightarrow> bool" where
  "int_gt k (Val q) = (q < real k)"
| "int_gt k NInf = True"
| "int_gt k a = False"

text \<open>The body of the inner loop after the read, for the frame \<open>d\<close>.\<close>

definition inner_body :: "config \<Rightarrow> frame \<Rightarrow> world \<Rightarrow> capture \<Rightarrow> exn + (flow \<times> world \<times> capture)" where
  "inner_body cfg d w c =
     (if \<not> is_silence cfg d then
        Inr (Continue,
             (if \<not> speech_detected c then say PrintSpeechDetected w else w),
             c\<lparr>frames := frames c @ [d], silence_count := 0, speech_detected := True\<rparr>)
      else if speech_detected c then
        (case silence_limit cfg of
           Inl e \<Rightarrow> Inl e
         | Inr bound \<Rightarrow>
             Inr (if int_gt (silence_count c + 1) bound then Break else Continue,
                  w,
                  c\<lparr>frames := frames c @ [d], silence_count := silence_count c + 1\<rparr>))
      else Inr (Continue, w, c))"

text \<open>\<open>os.unlink\<close>: removes the file, or raises when there is none.\<close>

definition unlink :: "nat \<Rightarrow> world \<Rightarrow> exn option \<times> world" where
  "unlink n w =
     (case files w n of
        None \<Rightarrow> (Some FileNotFoundError, w)
      | Some _ \<Rightarrow> (None, say (Unlink n) (w\<lparr>files := (files w)(n := None)\<rparr>)))"

text \<open>The body of the \<open>try\<close>: the model call, the strip, the callback.\<close>

definition try_body :: "config \<Rightarrow> model \<Rightarrow> callback \<Rightarrow> nat \<Rightarrow> wav \<Rightarrow> world \<Rightarrow> exn option \<times> world" where
  "try_body cfg m cb n f w =
     (let w1 = say (Transcribe n) w
      in case m f of
           Inl e \<Rightarrow> (Some e, w1)
         | Inr result \<Rightarrow>
             (let text = strip result
              in if text \<noteq> [] then
                   (let w2 = (if print_transcription_time cfg then say PrintTranscriptionTime w1 else w1);
                        w3 = say (Callback text) w2;
                        (x, r) = cb text (ctl w3)
                    in (x, w3\<lparr>ctl := r\<rparr>))
                 else (None, w1)))"

text \<open>\<open>except Exception\<close>: an \<open>Exception\<close> is printed and dropped, anything else goes on.\<close>

definition except_Exception :: "exn option \<times> world \<Rightarrow> exn option \<times> world" where
  "except_Exception xw =
     (case xw of
        (None, w) \<Rightarrow> (None, w)
      | (Some e, w) \<Rightarrow>
          (if is_Exception e then (None, say (PrintTranscriptionError e) w) else (Some e, w)))"

text \<open>\<open>finally\<close>: the unlink, whose own failure is swallowed by the bare \<open>except\<close>.\<close>

definition finally_unlink :: "nat \<Rightarrow> exn option \<times> world \<Rightarrow> exn option \<times> world" where
  "finally_unlink n xw = (case xw of (x, w) \<Rightarrow> (x, snd (unlink n w)))"

text \<open>The WAV file written from the buffer: \<open>writeframes(b''.join(frames))\<close>.\<close>

definition wav_of :: "config \<Rightarrow> frame list \<Rightarrow> wav" where
  "wav_of cfg fs =
     \<lparr>nchannels = channels cfg, sampwidth = 2, framerate = sample_rate cfg, pcm = concat fs\<rparr>"

text \<open>The block after the inner loop: temporary file, WAV, transcription, clean-up.\<close>

definition handle_utterance :: "config \<Rightarrow> model \<Rightarrow> callback \<Rightarrow> world \<Rightarrow> capture \<Rightarrow> exn option \<times> world" where
  "handle_utterance cfg m cb w c =
     (if frames c \<noteq> [] \<and> speech_detected c then
        (let n = next_tmp w;
             empty = \<lparr>nchannels = 0, sampwidth = 0, framerate = 0, pcm = []\<rparr>;
             w1 = say (TempFile n) (w\<lparr>files := (files w)(n \<mapsto> empty), next_tmp := n + 1\<rparr>);
             f = wav_of cfg (frames c);
             w2 = say (WriteWav n (frames c)) (w1\<lparr>files := (files w1)(n \<mapsto> f)\<rparr>)
         in case finally_unlink n (except_Exception (try_body cfg m cb n f w2)) of
              (Some e, w3) \<Rightarrow> (Some e, w3)
            | (None, w3) \<Rightarrow> (None, say PrintListening w3))
      else (None, w))"

definition fresh :: capture where
  "fresh = \<lparr>frames = [], silence_count = 0, speech_detected = False\<rparr>"

text \<open>
  The test of the outer loop, followed by the first test of the inner loop on the same
  flag: either the loop goes to read a frame with fresh locals, or it closes the stream
  and returns.
\<close>

definition outer_check :: "world \<Rightarrow> status" where
  "outer_check w =
     (if is_recording (ctl w) then Reading w fresh else Returned (say StreamClose w))"

text \<open>What follows the inner loop: the block above, then the test of the outer loop.\<close>

definition leave_inner :: "config \<Rightarrow> model \<Rightarrow> callback \<Rightarrow> world \<Rightarrow> capture \<Rightarrow> status" where
  "leave_inner cfg m cb w c =
     (case handle_utterance cfg m cb w c of
        (Some e, w2) \<Rightarrow> Raised e w2
      | (None, w2) \<Rightarrow> outer_check w2)"

text \<open>
  One read and everything up to the next read: the flag write of another thread, the
  loop body, the inner test and, when the inner loop is left, what follows it.
\<close>

definition feed :: "config \<Rightarrow> model \<Rightarrow> callback \<Rightarrow> world \<Rightarrow> capture \<Rightarrow> read \<Rightarrow> status" where
  "feed cfg m cb w c rd =
     (let w0 = (if stopped rd then w\<lparr>ctl := (ctl w)\<lparr>is_recording := False\<rparr>\<rparr> else w)
      in case inner_body cfg (data rd) w0 c of
           Inl e \<Rightarrow> Raised e w0
         | Inr (fl, w1, c1) \<Rightarrow>
             if fl = Continue \<and> is_recording (ctl w1) then Reading w1 c1
             else leave_inner cfg m cb w1 c1)"

text \<open>
  The loop on a list of reads. When the list ends in \<open>Reading\<close> the loop is waiting for
  the next frame; once it has returned or raised, nothing more is read.
\<close>

fun run :: "config \<Rightarrow> model \<Rightarrow> callback \<Rightarrow> status \<Rightarrow> read list \<Rightarrow> status" where
  "run cfg m cb st [] = st"
| "run cfg m cb (Reading w c) (rd # rds) = run cfg m cb (feed cfg m cb w c rd) rds"
| "run cfg m cb st (rd # rds) = st"

definition record_audio :: "config \<Rightarrow> model \<Rightarrow> callback \<Rightarrow> world \<Rightarrow> read list \<Rightarrow> status" where
  "record_audio cfg m cb w rds =
     run cfg m cb (outer_check (say PrintListening (say StreamOpen w))) rds"

subsection \<open>Observations\<close>

fun world_of :: "status \<Rightarrow> world" where
  "world_of (Reading w c) = w"
| "world_of (Returned w) = w"
| "world_of (Raised e w) = w"

text \<open>The utterance buffers handed on for transcription, in order.\<close>

fun emitted :: "event list \<Rightarrow> frame list list" where
  "emitted [] = []"
| "emitted (WriteWav n fs # es) = fs # emitted es"
| "emitted (e # es) = emitted es"

fun called :: "event list \<Rightarrow> pystr list" where
  "called [] = []"
| "called (Callback t # es) = t # called es"
| "called (e # es) = called es"

fun transcribed :: "event list \<Rightarrow> nat list" where
  "transcribed [] = []"
| "transcribed (Transcribe n # es) = n # transcribed es"
| "transcribed (e # es) = transcribed es"

fun errors :: "event list \<Rightarrow> exn list" where
  "errors [] = []"
| "errors (PrintTranscriptionError e # es) = e # errors es"
| "errors (e # es) = errors es"

text \<open>
  The silence-frame-count of the specification's glossary, the ceiling of the quotient,
  taken of the quotient as the code computes it.
\<close>

definition silence_frame_count :: "config \<Rightarrow> int" where
  "silence_frame_count cfg = (case silence_quotient cfg of Val q \<Rightarrow> \<lceil>q\<rceil> | _ \<Rightarrow> 0)"

text \<open>
  The first count of silent frames that is strictly above the computed quotient. Above an
  infinite or undefined quotient there is none.
\<close>

definition break_count :: "config \<Rightarrow> nat" where
  "break_count cfg =
     (case silence_quotient cfg of Val q \<Rightarrow> nat \<lfloor>q\<rfloor> + 1 | NInf \<Rightarrow> 1 | _ \<Rightarrow> 0)"


text \<open>
  The sum of the squared samples and the root mean square of a frame, in exact
  arithmetic.
\<close>

definition sum_sq :: "frame \<Rightarrow> real" where
  "sum_sq f = sum_list (map (\<lambda>x. x ^ 2) (map (\<lambda>s. real_of_int (sint s)) f))"

definition rms :: "frame \<Rightarrow> real" where
  "rms f = sqrt (sum_sq f / real (length f))"

text \<open>The world after the "speech detected" print, made once per utterance.\<close>

definition heard :: "capture \<Rightarrow> world \<Rightarrow> world" where
  "heard c w = (if speech_detected c then w else say PrintSpeechDetected w)"


subsection \<open>Concrete inputs\<close>

text \<open>The defaults of \<open>SimpleAudioRecorder.__init__\<close>.\<close>

definition default_config :: config where
  "default_config =
     \<lparr>chunk_size = 1024, sample_rate = 16000, channels = 1, silence_threshold = 0.01,
      silence_duration = 2, print_transcription_time = True\<rparr>"

text \<open>The same with a chunk size that divides the two seconds of silence evenly.\<close>

definition even_config :: config where
  "even_config = default_config\<lparr>chunk_size := 1000\<rparr>"


text \<open>
  The recorder as \<open>text\<close> leaves it when the loop starts: the flag set, the recording
  thread (number 1) alive, no temporary file yet.
\<close>

definition started :: world where
  "started =
     \<lparr>ctl = \<lparr>is_recording = True, recording_thread = Some (Thread 1 True)\<rparr>,
      files = Map.empty, next_tmp = 0, trace = []\<rparr>"


text \<open>The loop's locals after a speech frame and one silent frame.\<close>

definition speech2 :: capture where
  "speech2 = \<lparr>frames = [[16384], [0]], silence_count = 1, speech_detected = True\<rparr>"

text \<open>The loop's locals after one speech frame.\<close>

definition speech1 :: capture where
  "speech1 = \<lparr>frames = [[16384]], silence_count = 0, speech_detected = True\<rparr>"

text \<open>
  A model that hears nothing in the buffer of \<open>speech2\<close> and the text " hi " in any
  other.
\<close>

definition picky_model :: model where
  "picky_model f = (if pcm f = [16384, 0] then Inr [32, 10] else Inr [32, 104, 105, 32])"

section \<open>Lemmas\<close>

subsection \<open>Rounding\<close>

lemma rne_of_int: "rne (real_of_int n) = n"
  by (simp add: rne_def)


lemma ieee_round_zero: "ieee_round p emin emax 0 = Val 0"
  by (simp add: ieee_round_def)

lemma ieee_round_exact:
  assumes m: "\<bar>m\<bar> < 2 ^ p" and e: "emin \<le> e"
    and ov: "\<bar>real_of_int m * 2 powr real_of_int e\<bar> < 2 powr real_of_int emax"
  shows "ieee_round p emin emax (real_of_int m * 2 powr real_of_int e) = Val (real_of_int m * 2 powr real_of_int e)"
proof (cases "m = 0")
  case True
  then show ?thesis by (simp add: ieee_round_def)
next
  case False
  define x where "x = real_of_int m * 2 powr real_of_int e"
  define k where "k = max (\<lfloor>log 2 \<bar>x\<bar>\<rfloor> - (int p - 1)) emin"
  have x0: "x \<noteq> 0" using False by (simp add: x_def)
  have ax: "\<bar>x\<bar> = real_of_int \<bar>m\<bar> * 2 powr real_of_int e"
    by (simp add: x_def abs_mult)
  have "real_of_int \<bar>m\<bar> < 2 ^ p"
    using m by (metis of_int_less_iff of_int_numeral of_int_power)
  then have "\<bar>x\<bar> < 2 ^ p * 2 powr real_of_int e"
    unfolding ax by (simp)
  also have "\<dots> = 2 powr (real p + real_of_int e)"
    by (simp add: powr_add powr_realpow)
  finally have "log 2 \<bar>x\<bar> < real p + real_of_int e"
    using x0 by (simp add: log_less_iff)
  then have "\<lfloor>log 2 \<bar>x\<bar>\<rfloor> < int p + e"
    by linarith
  then have ke: "k \<le> e"
    using e by (simp add: k_def)
  define j where "j = nat (e - k)"
  have ej: "real_of_int e = real_of_int k + real j"
    using ke by (simp add: j_def)
  have "x / 2 powr real_of_int k = real_of_int m * 2 powr real j"
    by (simp add: x_def ej powr_add)
  also have "\<dots> = real_of_int (m * 2 ^ j)"
    by (simp add: powr_realpow)
  finally have q: "x / 2 powr real_of_int k = real_of_int (m * 2 ^ j)" .
  have "real_of_int (rne (x / 2 powr real_of_int k)) * 2 powr real_of_int k = x"
    unfolding q rne_of_int unfolding q [symmetric] by simp
  then show ?thesis
    using x0 ov unfolding ieee_round_def k_def [symmetric] x_def [symmetric]
    by (simp add: Let_def k_def [symmetric])
qed



lemma ieee_round_exact_small:
  assumes m: "\<bar>m\<bar> < 2 ^ p" and e: "emin \<le> e" and top: "int p + e \<le> emax"
  shows "ieee_round p emin emax (real_of_int m * 2 powr real_of_int e) = Val (real_of_int m * 2 powr real_of_int e)"
proof -
  have "real_of_int \<bar>m\<bar> < 2 ^ p"
    using m by (metis of_int_less_iff of_int_numeral of_int_power)
  then have "\<bar>real_of_int m * 2 powr real_of_int e\<bar> < 2 ^ p * 2 powr real_of_int e"
    by (simp add: abs_mult)
  also have "\<dots> = 2 powr (real_of_int (int p + e))"
    by (simp add: powr_add powr_realpow)
  also have "\<dots> \<le> 2 powr real_of_int emax"
    using top by (simp only: powr_le_cancel_iff of_int_le_iff)
  finally show ?thesis
    using m e by (intro ieee_round_exact)
qed


lemma float32_pow2: "n < 104 \<Longrightarrow> float32 (2 ^ n) = Val (2 ^ n)"
  using ieee_round_exact_small [of 1 24 "- 149" "int n" 128]
  by (simp add: float32_def powr_realpow)

lemma float64_int: "\<bar>m\<bar> < 2 ^ 53 \<Longrightarrow> float64 (real_of_int m) = Val (real_of_int m)"
  using ieee_round_exact_small [of m 53 "- 1074" 0 1024]
  by (simp add: float64_def)

lemma powr_minus_nat: "2 powr real_of_int (- int j) = 1 / 2 ^ j"
proof -
  have "2 powr real_of_int (- int j) = inverse (2 powr real j)"
    by (simp add: powr_minus)
  also have "\<dots> = 1 / 2 ^ j"
    by (simp add: powr_realpow inverse_eq_divide)
  finally show ?thesis .
qed

lemma float64_dyadic:
  assumes "\<bar>m\<bar> < 2 ^ 53" "j \<le> 1074"
  shows "float64 (real_of_int m / 2 ^ j) = Val (real_of_int m / 2 ^ j)"
proof -
  have eq: "real_of_int m * 2 powr real_of_int (- int j) = real_of_int m / 2 ^ j"
    unfolding powr_minus_nat by simp
  have "ieee_round 53 (- 1074) 1024 (real_of_int m * 2 powr real_of_int (- int j))
      = Val (real_of_int m * 2 powr real_of_int (- int j))"
    using assms by (intro ieee_round_exact_small) simp_all
  then show ?thesis
    unfolding eq float64_def .
qed

lemma float32_dyadic:
  assumes "\<bar>m\<bar> < 2 ^ 24" "j \<le> 149"
  shows "float32 (real_of_int m / 2 ^ j) = Val (real_of_int m / 2 ^ j)"
proof -
  have eq: "real_of_int m * 2 powr real_of_int (- int j) = real_of_int m / 2 ^ j"
    unfolding powr_minus_nat by simp
  have "ieee_round 24 (- 149) 128 (real_of_int m * 2 powr real_of_int (- int j))
      = Val (real_of_int m * 2 powr real_of_int (- int j))"
    using assms by (intro ieee_round_exact_small) simp_all
  then show ?thesis
    unfolding eq float32_def .
qed

lemma float64_quarter:
  "\<bar>m\<bar> < 2 ^ 53 \<Longrightarrow> float64 (real_of_int m / 4) = Val (real_of_int m / 4)"
  using float64_dyadic [of m 2] by simp



lemma float32_zero: "float32 0 = Val 0"
  by (simp add: float32_def ieee_round_zero)

lemma float64_zero: "float64 0 = Val 0"
  by (simp add: float64_def ieee_round_zero)

lemma np_add_zero: "np_add (Val 0) (Val 0) = Val 0"
  by (simp add: float32_zero)

text \<open>A property kept by the float32 addition is kept by the whole summation.\<close>

lemma foldl_np_add_keeps:
  assumes "\<And>a b. P a \<Longrightarrow> P b \<Longrightarrow> P (np_add a b)"
  shows "P i \<Longrightarrow> \<forall>x\<in>set xs. P x \<Longrightarrow> P (foldl np_add i xs)"
  by (induction xs arbitrary: i) (simp_all add: assms)

lemma lanes_keeps:
  assumes "\<And>a b. P a \<Longrightarrow> P b \<Longrightarrow> P (np_add a b)"
  shows "length r = 8 \<Longrightarrow> \<forall>x\<in>set r. P x \<Longrightarrow> \<forall>x\<in>set xs. P x \<Longrightarrow>
         length (lanes r xs) = 8 \<and> (\<forall>x\<in>set (lanes r xs). P x)"
proof (induction r xs rule: lanes.induct)
  case (1 r xs)
  show ?case
  proof (cases "length xs < 8")
    case True
    then show ?thesis
      using "1.prems" by (simp add: lanes.simps [of r xs])
  next
    case False
    let ?r = "map2 np_add r (take 8 xs)"
    have len: "length ?r = 8"
      using False "1.prems"(1) by simp
    have "\<forall>x\<in>set ?r. P x"
    proof
      fix x assume "x \<in> set ?r"
      then obtain a b where "x = np_add a b" "a \<in> set r" "b \<in> set (take 8 xs)"
        by (auto dest: set_zip_leftD set_zip_rightD)
      then show "P x"
        using "1.prems"(2,3) assms by (meson in_set_takeD)
    qed
    moreover have "\<forall>x\<in>set (drop 8 xs). P x"
      using "1.prems"(3) by (meson in_set_dropD)
    ultimately have "length (lanes ?r (drop 8 xs)) = 8 \<and> (\<forall>x\<in>set (lanes ?r (drop 8 xs)). P x)"
      using False len by (intro "1.IH") simp_all
    then show ?thesis
      using False by (simp add: lanes.simps [of r xs])
  qed
qed

lemma pairwise_sum_keeps:
  assumes add: "\<And>a b. P a \<Longrightarrow> P b \<Longrightarrow> P (np_add a b)" and zero: "P (Val 0)"
  shows "\<forall>x\<in>set a. P x \<Longrightarrow> P (pairwise_sum a)"
proof (induction a rule: pairwise_sum.induct)
  case (1 a)
  let ?n = "length a"
  consider "?n < 8" | "8 \<le> ?n" "?n \<le> 128" | "128 < ?n"
    by linarith
  then show ?case
  proof cases
    case 1
    then show ?thesis
      using "1.prems" zero foldl_np_add_keeps [of P, OF add]
      by (simp add: pairwise_sum.simps [of a])
  next
    case 2
    let ?m = "?n - ?n mod 8"
    let ?r = "lanes (take 8 a) (drop 8 (take ?m a))"
    have "length (take 8 a) = 8"
      using 2 by simp
    moreover have "\<forall>x\<in>set (take 8 a). P x"
      using "1.prems" by (meson in_set_takeD)
    moreover have "\<forall>x\<in>set (drop 8 (take ?m a)). P x"
      using "1.prems" by (meson in_set_dropD in_set_takeD)
    ultimately have r: "length ?r = 8" "\<forall>x\<in>set ?r. P x"
      using lanes_keeps [of P, OF add] by blast+
    have "P (?r ! i)" if "i < 8" for i
      using r that by simp
    then have "P (np_add (np_add (np_add (?r ! 0) (?r ! 1)) (np_add (?r ! 2) (?r ! 3)))
                         (np_add (np_add (?r ! 4) (?r ! 5)) (np_add (?r ! 6) (?r ! 7))))"
      by (intro add) simp_all
    moreover have "\<forall>x\<in>set (drop ?m a). P x"
      using "1.prems" by (meson in_set_dropD)
    ultimately show ?thesis
      using 2 foldl_np_add_keeps [of P, OF add]
      by (simp add: pairwise_sum.simps [of a] Let_def)
  next
    case 3
    let ?n2 = "?n div 2 - (?n div 2) mod 8"
    have "P (pairwise_sum (take ?n2 a))"
      using 3 "1.prems" by (intro "1.IH"(1)) (auto dest: in_set_takeD)
    moreover have "P (pairwise_sum (drop ?n2 a))"
      using 3 "1.prems" by (intro "1.IH"(2)) (auto dest: in_set_dropD)
    ultimately show ?thesis
      using 3 add by (simp add: pairwise_sum.simps [of a] Let_def)
  qed
qed

lemma add_reduce_keeps:
  assumes "\<And>a b. P a \<Longrightarrow> P b \<Longrightarrow> P (np_add a b)" "P (Val 0)" "\<forall>x\<in>set a. P x"
  shows "P (add_reduce a)"
  unfolding add_reduce_def using assms pairwise_sum_keeps [of P a] by blast

lemma add_reduce_zero: "\<forall>x\<in>set a. x = Val 0 \<Longrightarrow> add_reduce a = Val 0"
  by (rule add_reduce_keeps [of "\<lambda>x. x = Val 0"]) (simp_all add: float32_zero)





subsection \<open>The silence detector\<close>

lemma sum_sq_nonneg: "0 \<le> sum_sq f"
  unfolding sum_sq_def by (induction f) auto



lemma normalized_rms_zero:
  assumes "f \<noteq> []" "\<forall>s\<in>set f. s = 0"
  shows "normalized_rms f = Val 0"
proof -
  let ?sq = "map (\<lambda>x. float32 (x ^ 2)) (map (\<lambda>s. real_of_int (sint s)) f)"
  have "\<forall>x\<in>set ?sq. x = Val 0"
    using assms(2) by (auto simp: float32_zero)
  then have "add_reduce ?sq = Val 0"
    by (rule add_reduce_zero)
  moreover have "length ?sq \<noteq> 0"
    using assms(1) by simp
  ultimately have "np_mean ?sq = Val 0"
    by (simp add: np_mean_def float64_zero float32_zero)
  then show ?thesis
    by (simp add: normalized_rms_def float32_zero)
qed


lemma is_silence_zero:
  "f \<noteq> [] \<Longrightarrow> \<forall>s\<in>set f. s = 0 \<Longrightarrow> 0 < silence_threshold cfg \<Longrightarrow> is_silence cfg f"
  by (simp add: is_silence_def normalized_rms_zero)

lemma pairwise_sum_small: "length a < 8 \<Longrightarrow> pairwise_sum a = foldl np_add (Val 0) a"
  by (simp add: pairwise_sum.simps [of a])

subsection \<open>Stripping\<close>

lemma dropWhile_strip: "dropWhile py_isspace (strip s) = strip s"
proof (cases "strip s")
  case Nil
  then show ?thesis by simp
next
  case (Cons x xs)
  define b where "b = dropWhile py_isspace s"
  have st: "strip s = rev (dropWhile py_isspace (rev b))"
    by (simp add: strip_def b_def)
  have "rev b = takeWhile py_isspace (rev b) @ dropWhile py_isspace (rev b)"
    by simp
  then have "b = strip s @ rev (takeWhile py_isspace (rev b))"
    unfolding st by (metis rev_append rev_rev_ident)
  with Cons have b: "b = x # (xs @ rev (takeWhile py_isspace (rev b)))"
    by simp
  then have "b \<noteq> []" by auto
  then have "\<not> py_isspace (hd b)"
    unfolding b_def by (rule hd_dropWhile)
  moreover have "hd b = x" using b by (metis list.sel(1))
  ultimately show ?thesis using Cons by simp
qed

lemma strip_idem: "strip (strip s) = strip s"
proof -
  have "strip (strip s) = rev (dropWhile py_isspace (rev (strip s)))"
    unfolding strip_def [of "strip s"] by (simp only: dropWhile_strip)
  also have "\<dots> = strip s"
    by (simp add: strip_def dropWhile_idem)
  finally show ?thesis .
qed

subsection \<open>Reading the trace\<close>

lemma emitted_append: "emitted (xs @ ys) = emitted xs @ emitted ys"
  by (induction xs rule: emitted.induct) auto

lemma called_append: "called (xs @ ys) = called xs @ called ys"
  by (induction xs rule: called.induct) auto

lemma transcribed_append: "transcribed (xs @ ys) = transcribed xs @ transcribed ys"
  by (induction xs rule: transcribed.induct) auto

lemma errors_append: "errors (xs @ ys) = errors xs @ errors ys"
  by (induction xs rule: errors.induct) auto

lemmas obs_append = emitted_append called_append transcribed_append errors_append

subsection \<open>The block after the inner loop\<close>

lemmas handle_defs = handle_utterance_def try_body_def except_Exception_def finally_unlink_def
  unlink_def say_def Let_def

lemma handle_utterance_skip:
  "\<not> (frames c \<noteq> [] \<and> speech_detected c) \<Longrightarrow> handle_utterance cfg m cb w c = (None, w)"
  by (auto simp: handle_utterance_def)

lemma handle_utterance_emitted:
  "frames c \<noteq> [] \<Longrightarrow> speech_detected c \<Longrightarrow>
   emitted (trace (snd (handle_utterance cfg m cb w c))) = emitted (trace w) @ [frames c]"
  by (auto simp: handle_defs obs_append split: sum.splits prod.splits option.splits)

lemma handle_utterance_transcribed:
  "frames c \<noteq> [] \<Longrightarrow> speech_detected c \<Longrightarrow>
   transcribed (trace (snd (handle_utterance cfg m cb w c))) = transcribed (trace w) @ [next_tmp w]"
  by (auto simp: handle_defs obs_append split: sum.splits prod.splits option.splits)

lemma handle_utterance_files:
  "frames c \<noteq> [] \<Longrightarrow> speech_detected c \<Longrightarrow>
   files (snd (handle_utterance cfg m cb w c)) = (files w)(next_tmp w := None)"
  by (auto simp: handle_defs split: sum.splits prod.splits option.splits)

lemma handle_utterance_called:
  "set (called (trace (snd (handle_utterance cfg m cb w c))))
     \<subseteq> set (called (trace w)) \<union> {t. t \<noteq> [] \<and> strip t = t}"
  by (auto simp: handle_defs obs_append strip_idem split: sum.splits prod.splits option.splits)

subsection \<open>Waiting, and the speech frames\<close>

lemma feed_waiting_silence:
  "is_recording (ctl w) \<Longrightarrow> \<not> speech_detected c \<Longrightarrow> is_silence cfg (data rd) \<Longrightarrow>
   \<not> stopped rd \<Longrightarrow> feed cfg m cb w c rd = Reading w c"
  by (simp add: feed_def inner_body_def)

lemma run_waiting_silence:
  "is_recording (ctl w) \<Longrightarrow> \<not> speech_detected c \<Longrightarrow>
   \<forall>rd\<in>set rds. is_silence cfg (data rd) \<and> \<not> stopped rd \<Longrightarrow>
   run cfg m cb (Reading w c) rds = Reading w c"
  by (induction rds) (simp_all add: feed_waiting_silence)

lemma feed_speech:
  "is_recording (ctl w) \<Longrightarrow> \<not> is_silence cfg (data rd) \<Longrightarrow> \<not> stopped rd \<Longrightarrow>
   feed cfg m cb w c rd =
     Reading (heard c w) \<lparr>frames = frames c @ [data rd], silence_count = 0, speech_detected = True\<rparr>"
  by (simp add: feed_def inner_body_def heard_def say_def)

lemma run_speech:
  "is_recording (ctl w) \<Longrightarrow> \<forall>rd\<in>set rds. \<not> is_silence cfg (data rd) \<and> \<not> stopped rd \<Longrightarrow>
   rds \<noteq> [] \<Longrightarrow>
   run cfg m cb (Reading w c) rds =
     Reading (heard c w) \<lparr>frames = frames c @ map data rds, silence_count = 0, speech_detected = True\<rparr>"
proof (induction rds arbitrary: w c)
  case Nil
  then show ?case by simp
next
  case (Cons rd rds)
  show ?case
  proof (cases "rds = []")
    case True
    with Cons.prems show ?thesis by (simp add: feed_speech)
  next
    case False
    let ?c = "\<lparr>frames = frames c @ [data rd], silence_count = 0, speech_detected = True\<rparr>"
    have "run cfg m cb (Reading w c) (rd # rds) = run cfg m cb (Reading (heard c w) ?c) rds"
      using Cons.prems by (simp add: feed_speech)
    also have "\<dots> = Reading (heard ?c (heard c w))
        \<lparr>frames = frames ?c @ map data rds, silence_count = 0, speech_detected = True\<rparr>"
      using Cons.prems False by (intro Cons.IH) (simp_all add: heard_def say_def)
    finally show ?thesis by (simp add: heard_def)
  qed
qed

subsection \<open>Capturing, and the end of an utterance\<close>

lemma exceeds_iff: "0 < k \<Longrightarrow> x < real k \<longleftrightarrow> nat \<lfloor>x\<rfloor> + 1 \<le> k"
proof -
  assume k: "0 < k"
  have "x < real k \<longleftrightarrow> \<lfloor>x\<rfloor> < int k"
    by (simp add: floor_less_iff)
  also have "\<dots> \<longleftrightarrow> nat \<lfloor>x\<rfloor> + 1 \<le> k"
    using k by linarith
  finally show ?thesis .
qed

lemma breaks_iff:
  assumes "0 < break_count cfg"
  shows "int_gt (silence_count c + 1) (silence_quotient cfg)
     \<longleftrightarrow> break_count cfg \<le> silence_count c + 1"
proof (cases "silence_quotient cfg")
  case (Val q)
  then show ?thesis
    using exceeds_iff [of "silence_count c + 1" q] by (simp add: break_count_def)
qed (use assms in \<open>simp_all add: break_count_def\<close>)

lemma feed_capture_continue:
  "is_recording (ctl w) \<Longrightarrow> speech_detected c \<Longrightarrow> is_silence cfg (data rd) \<Longrightarrow>
   \<not> stopped rd \<Longrightarrow> chunk_size cfg \<noteq> 0 \<Longrightarrow> silence_count c + 1 < break_count cfg \<Longrightarrow>
   feed cfg m cb w c rd =
     Reading w (c\<lparr>frames := frames c @ [data rd], silence_count := silence_count c + 1\<rparr>)"
  using breaks_iff [of cfg c]
  by (simp add: feed_def inner_body_def silence_limit_def)

lemma feed_capture_break:
  "speech_detected c \<Longrightarrow> is_silence cfg (data rd) \<Longrightarrow>
   \<not> stopped rd \<Longrightarrow> chunk_size cfg \<noteq> 0 \<Longrightarrow> 0 < break_count cfg \<Longrightarrow>
   break_count cfg \<le> silence_count c + 1 \<Longrightarrow>
   feed cfg m cb w c rd =
     leave_inner cfg m cb w (c\<lparr>frames := frames c @ [data rd], silence_count := silence_count c + 1\<rparr>)"
  using breaks_iff [of cfg c]
  by (simp add: feed_def inner_body_def silence_limit_def)

lemma run_capture_silence:
  "is_recording (ctl w) \<Longrightarrow> speech_detected c \<Longrightarrow> chunk_size cfg \<noteq> 0 \<Longrightarrow>
   \<forall>rd\<in>set rds. is_silence cfg (data rd) \<and> \<not> stopped rd \<Longrightarrow>
   silence_count c + length rds < break_count cfg \<Longrightarrow>
   run cfg m cb (Reading w c) rds =
     Reading w (c\<lparr>frames := frames c @ map data rds, silence_count := silence_count c + length rds\<rparr>)"
proof (induction rds arbitrary: c)
  case Nil
  then show ?case by simp
next
  case (Cons rd rds)
  let ?c = "c\<lparr>frames := frames c @ [data rd], silence_count := silence_count c + 1\<rparr>"
  have "run cfg m cb (Reading w c) (rd # rds) = run cfg m cb (Reading w ?c) rds"
    using Cons.prems by (simp add: feed_capture_continue)
  also have "\<dots> = Reading w (?c\<lparr>frames := frames ?c @ map data rds,
                                  silence_count := silence_count ?c + length rds\<rparr>)"
    using Cons.prems by (intro Cons.IH) simp_all
  finally show ?case by simp
qed

lemma run_append: "run cfg m cb st (xs @ ys) = run cfg m cb (run cfg m cb st xs) ys"
proof (induction xs arbitrary: st)
  case Nil
  then show ?case by simp
next
  case (Cons x xs)
  then show ?case by (cases st) (simp_all, (cases ys; simp)+)
qed

lemma run_to_break:
  assumes "is_recording (ctl w)" "speech_detected c" "chunk_size cfg \<noteq> 0"
    and "\<forall>rd\<in>set rds. is_silence cfg (data rd) \<and> \<not> stopped rd"
    and "rds \<noteq> []"
    and "silence_count c + length rds = break_count cfg"
  shows "run cfg m cb (Reading w c) rds =
     leave_inner cfg m cb w
       (c\<lparr>frames := frames c @ map data rds, silence_count := break_count cfg\<rparr>)"
proof -
  define c' where "c' = c\<lparr>frames := frames c @ map data (butlast rds),
     silence_count := silence_count c + length (butlast rds)\<rparr>"
  have split: "rds = butlast rds @ [last rds]"
    using assms(5) by simp
  have quiet: "\<forall>rd\<in>set (butlast rds). is_silence cfg (data rd) \<and> \<not> stopped rd"
    using assms(4) by (meson in_set_butlastD)
  have lastq: "is_silence cfg (data (last rds)) \<and> \<not> stopped (last rds)"
    using assms(4,5) by simp
  have "0 < length rds"
    using assms(5) by simp
  moreover have "length (butlast rds) = length rds - 1"
    by simp
  ultimately have len: "silence_count c + length (butlast rds) + 1 = break_count cfg"
    using assms(6) by arith
  have "run cfg m cb (Reading w c) (butlast rds) = Reading w c'"
    unfolding c'_def using assms(1,2,3) quiet len
    by (intro run_capture_silence) simp_all
  then have "run cfg m cb (Reading w c) rds = feed cfg m cb w c' (last rds)"
    by (subst split) (simp add: run_append)
  also have "\<dots> = leave_inner cfg m cb w
      (c'\<lparr>frames := frames c' @ [data (last rds)], silence_count := silence_count c' + 1\<rparr>)"
    using assms(2,3) lastq len by (intro feed_capture_break) (simp_all add: c'_def)
  finally have r: "run cfg m cb (Reading w c) rds = leave_inner cfg m cb w
      (c'\<lparr>frames := frames c' @ [data (last rds)], silence_count := silence_count c' + 1\<rparr>)" .
  have "map data rds = map data (butlast rds) @ [data (last rds)]"
    using split by (metis list.simps(8,9) map_append)
  then have "frames c' @ [data (last rds)] = frames c @ map data rds"
    by (simp add: c'_def)
  moreover have "silence_count c' + 1 = break_count cfg"
    using len by (simp add: c'_def)
  ultimately show ?thesis
    using r by (simp add: c'_def)
qed

lemma run_Returned: "run cfg m cb (Returned w) rds = Returned w"
  by (cases rds) simp_all

lemma run_Raised: "run cfg m cb (Raised e w) rds = Raised e w"
  by (cases rds) simp_all

lemma leave_inner_emitted:
  assumes "frames c \<noteq> []" "speech_detected c"
  shows "emitted (trace (world_of (leave_inner cfg m cb w c))) = emitted (trace w) @ [frames c]"
proof -
  obtain x w' where h: "handle_utterance cfg m cb w c = (x, w')"
    by (cases "handle_utterance cfg m cb w c")
  then have "emitted (trace w') = emitted (trace w) @ [frames c]"
    using handle_utterance_emitted [OF assms, of cfg m cb w] by simp
  then show ?thesis
    using h by (cases x) (simp_all add: leave_inner_def outer_check_def say_def obs_append)
qed

lemma run_after_leave:
  assumes "\<forall>rd\<in>set rds. is_silence cfg (data rd) \<and> \<not> stopped rd"
  shows "run cfg m cb (leave_inner cfg m cb w c) rds = leave_inner cfg m cb w c"
proof -
  obtain x w' where h: "handle_utterance cfg m cb w c = (x, w')"
    by (cases "handle_utterance cfg m cb w c")
  show ?thesis
  proof (cases x)
    case None
    with h show ?thesis
      using assms
      by (simp add: leave_inner_def outer_check_def run_Returned run_waiting_silence fresh_def)
  next
    case (Some e)
    with h show ?thesis by (simp add: leave_inner_def run_Raised)
  qed
qed

lemma record_audio_start:
  "is_recording (ctl w) \<Longrightarrow>
   record_audio cfg m cb w rds =
     run cfg m cb (Reading (say PrintListening (say StreamOpen w)) fresh) rds"
  by (simp add: record_audio_def outer_check_def say_def)

text \<open>The whole of one utterance: leading silence, speech, trailing silence.\<close>

lemma run_utterance:
  assumes rec: "is_recording (ctl w)" and chunk: "chunk_size cfg \<noteq> 0"
    and b: "0 < break_count cfg"
    and lead: "\<forall>rd\<in>set ls. is_silence cfg (data rd) \<and> \<not> stopped rd"
    and speech: "\<forall>rd\<in>set ms. \<not> is_silence cfg (data rd) \<and> \<not> stopped rd" "ms \<noteq> []"
    and trail: "\<forall>rd\<in>set ks. is_silence cfg (data rd) \<and> \<not> stopped rd"
    and len: "break_count cfg \<le> length ks"
  shows "run cfg m cb (Reading w fresh) (ls @ ms @ ks) =
     leave_inner cfg m cb (heard fresh w)
       \<lparr>frames = map data ms @ map data (take (break_count cfg) ks),
        silence_count = break_count cfg, speech_detected = True\<rparr>"
proof -
  let ?b = "break_count cfg"
  let ?c = "\<lparr>frames = map data ms, silence_count = 0, speech_detected = True\<rparr>"
  have ks: "ks = take ?b ks @ drop ?b ks" by simp
  have tk: "\<forall>rd\<in>set (take ?b ks). is_silence cfg (data rd) \<and> \<not> stopped rd"
    using trail by (meson in_set_takeD)
  have dr: "\<forall>rd\<in>set (drop ?b ks). is_silence cfg (data rd) \<and> \<not> stopped rd"
    using trail by (meson in_set_dropD)
  have hrec: "is_recording (ctl (heard fresh w))"
    using rec by (simp add: heard_def say_def)
  have "run cfg m cb (Reading w fresh) ls = Reading w fresh"
    using rec lead by (intro run_waiting_silence) (simp_all add: fresh_def)
  moreover have "run cfg m cb (Reading w fresh) ms = Reading (heard fresh w) ?c"
    using run_speech [OF rec speech, of m cb fresh] by (simp add: fresh_def)
  moreover have "run cfg m cb (Reading (heard fresh w) ?c) (take ?b ks) =
      leave_inner cfg m cb (heard fresh w)
        (?c\<lparr>frames := frames ?c @ map data (take ?b ks), silence_count := ?b\<rparr>)"
    using hrec chunk tk b len by (intro run_to_break) auto
  ultimately have "run cfg m cb (Reading w fresh) (ls @ ms @ take ?b ks) =
      leave_inner cfg m cb (heard fresh w)
        \<lparr>frames = map data ms @ map data (take ?b ks), silence_count = ?b, speech_detected = True\<rparr>"
    by (simp add: run_append)
  then have "run cfg m cb (Reading w fresh) ((ls @ ms @ take ?b ks) @ drop ?b ks) =
      leave_inner cfg m cb (heard fresh w)
        \<lparr>frames = map data ms @ map data (take ?b ks), silence_count = ?b, speech_detected = True\<rparr>"
    using dr by (simp only: run_append [of _ _ _ _ "ls @ ms @ take ?b ks"] run_after_leave)
  then show ?thesis by simp
qed

subsection \<open>Concrete frames and configurations\<close>

lemma emitted_start: "emitted (trace (heard fresh (say PrintListening (say StreamOpen w)))) = emitted (trace w)"
  by (simp add: heard_def say_def fresh_def obs_append)

lemma float32_facts:
  "float32 16384 = Val 16384"
  "float32 268435456 = Val 268435456"
  "float32 536870912 = Val 536870912"
  using float32_pow2 [of 14] float32_pow2 [of 28] float32_pow2 [of 29] by simp_all

lemma float64_facts:
  "float64 2 = Val 2"
  "float64 32 = Val 32"
  "float64 1000 = Val 1000"
  "float64 1024 = Val 1024"
  "float64 16000 = Val 16000"
  "float64 32000 = Val 32000"
  "float64 268435456 = Val 268435456"
  "float64 (125 / 4) = Val (125 / 4)"
  using float64_int [of 2] float64_int [of 32] float64_int [of 1000] float64_int [of 1024]
    float64_int [of 16000] float64_int [of 32000] float64_int [of 268435456]
    float64_quarter [of 125]
  by simp_all

lemma sqrt_2_28: "sqrt (268435456::real) = 16384"
  by (rule real_sqrt_unique) simp_all

lemma normalized_rms_loud: "normalized_rms [16384] = Val (1 / 2)"
  by (simp add: normalized_rms_def np_mean_def add_reduce_def pairwise_sum_small
      float32_facts float64_facts sqrt_2_28)

lemma normalized_rms_loud_neg: "normalized_rms [- 16384] = Val (1 / 2)"
  by (simp add: normalized_rms_def np_mean_def add_reduce_def pairwise_sum_small
      float32_facts float64_facts sqrt_2_28)

lemma normalized_rms_loud2: "normalized_rms [16384, - 16384] = Val (1 / 2)"
  by (simp add: normalized_rms_def np_mean_def add_reduce_def pairwise_sum_small
      float32_facts float64_facts sqrt_2_28)

lemma silent_zero: "is_silence default_config [0]"
  by (simp add: is_silence_zero default_config_def)

lemma speech_loud: "\<not> is_silence default_config [16384]"
  by (simp add: is_silence_def normalized_rms_loud default_config_def)

lemma silent_zero_even: "is_silence even_config [0]"
  by (simp add: is_silence_zero default_config_def even_config_def)

lemma speech_loud_even: "\<not> is_silence even_config [16384]"
  by (simp add: is_silence_def normalized_rms_loud default_config_def even_config_def)

lemma quotient_default_fields:
  "silence_duration cfg = 2 \<Longrightarrow> sample_rate cfg = 16000 \<Longrightarrow> chunk_size cfg = 1024 \<Longrightarrow>
   silence_quotient cfg = Val (125 / 4)"
  by (simp add: silence_quotient_def float64_facts)

lemma quotient_default: "silence_quotient default_config = Val (125 / 4)"
  by (rule quotient_default_fields) (simp_all add: default_config_def)

lemma quotient_even: "silence_quotient even_config = Val 32"
  by (simp add: silence_quotient_def float64_facts default_config_def even_config_def)

lemma break_count_default: "break_count default_config = 32"
  by (simp add: break_count_def quotient_default)

lemma break_count_even: "break_count even_config = 33"
  by (simp add: break_count_def quotient_even)

lemma silence_frame_count_default: "silence_frame_count default_config = 32"
  by (simp add: silence_frame_count_def quotient_default)

lemma silence_frame_count_even: "silence_frame_count even_config = 32"
  by (simp add: silence_frame_count_def quotient_even)




lemma chunk_even: "chunk_size even_config \<noteq> 0"
  by (simp add: even_config_def default_config_def)

lemma chunk_default: "chunk_size default_config \<noteq> 0"
  by (simp add: default_config_def)

lemma floor_ceiling:
  "int (nat \<lfloor>q\<rfloor> + 1) = (if q \<in> \<int> then \<lceil>q\<rceil> + 1 else \<lceil>q\<rceil>)" if "0 \<le> q" for q :: real
proof (cases "q \<in> \<int>")
  case True
  then have "\<lceil>q\<rceil> = \<lfloor>q\<rfloor>"
    by (metis Ints_cases ceiling_of_int floor_of_int)
  then show ?thesis
    using True that by simp
next
  case False
  then have "q \<noteq> of_int \<lfloor>q\<rfloor>"
    by (metis Ints_of_int)
  then have "\<lceil>q\<rceil> = \<lfloor>q\<rfloor> + 1"
    by (simp add: ceiling_altdef)
  then show ?thesis
    using False that by simp
qed

lemma break_count_ceiling:
  assumes "silence_quotient cfg = Val q" "0 \<le> q"
  shows "int (break_count cfg) =
     (if q \<in> \<int> then silence_frame_count cfg + 1 else silence_frame_count cfg)"
  using floor_ceiling [OF assms(2)] assms(1)
  by (simp add: break_count_def silence_frame_count_def)

lemma record_audio_speech_first:
  assumes "is_recording (ctl w)" "\<not> is_silence cfg (data s)" "\<not> stopped s"
  shows "record_audio cfg m cb w (s # zs) =
     run cfg m cb
       (Reading (heard fresh (say PrintListening (say StreamOpen w)))
          \<lparr>frames = [data s], silence_count = 0, speech_detected = True\<rparr>) zs"
proof -
  have "is_recording (ctl (say PrintListening (say StreamOpen w)))"
    using assms(1) by (simp add: say_def)
  then show ?thesis
    using assms by (simp add: record_audio_start feed_speech fresh_def)
qed

lemma started_heard:
  "heard fresh (say PrintListening (say StreamOpen started)) =
     started\<lparr>trace := [StreamOpen, PrintListening, PrintSpeechDetected]\<rparr>"
  by (simp add: heard_def fresh_def say_def started_def)

lemma record_audio_utterance:
  assumes "is_recording (ctl w)" "chunk_size cfg \<noteq> 0" "0 < break_count cfg"
    and "\<forall>rd\<in>set ls. is_silence cfg (data rd) \<and> \<not> stopped rd"
    and "\<forall>rd\<in>set ms. \<not> is_silence cfg (data rd) \<and> \<not> stopped rd" "ms \<noteq> []"
    and "\<forall>rd\<in>set ks. is_silence cfg (data rd) \<and> \<not> stopped rd"
    and "break_count cfg \<le> length ks"
  shows "emitted (trace (world_of (record_audio cfg m cb w (ls @ ms @ ks))))
     = emitted (trace w) @ [map data ms @ map data (take (break_count cfg) ks)]"
proof -
  let ?w = "say PrintListening (say StreamOpen w)"
  have rec: "is_recording (ctl ?w)"
    using assms(1) by (simp add: say_def)
  have "record_audio cfg m cb w (ls @ ms @ ks) =
      leave_inner cfg m cb (heard fresh ?w)
       \<lparr>frames = map data ms @ map data (take (break_count cfg) ks),
        silence_count = break_count cfg, speech_detected = True\<rparr>"
    using assms(1) run_utterance [OF rec assms(2-8), of m cb]
    by (simp add: record_audio_start)
  then show ?thesis
    using assms(6) by (simp add: leave_inner_emitted emitted_start)
qed

subsection \<open>The outcomes of the transcription block\<close>

lemma handle_model_raises:
  assumes "frames c \<noteq> []" "speech_detected c"
    and "m (wav_of cfg (frames c)) = Inl e" "is_Exception e"
  shows "handle_utterance cfg m cb w c =
     (None, w\<lparr>files := (files w)(next_tmp w := None), next_tmp := next_tmp w + 1,
               trace := trace w @ [TempFile (next_tmp w), WriteWav (next_tmp w) (frames c),
                 Transcribe (next_tmp w), PrintTranscriptionError e, Unlink (next_tmp w),
                 PrintListening]\<rparr>)"
  using assms by (simp add: handle_defs)

lemma handle_empty_text:
  assumes "frames c \<noteq> []" "speech_detected c"
    and "m (wav_of cfg (frames c)) = Inr result" "strip result = []"
  shows "handle_utterance cfg m cb w c =
     (None, w\<lparr>files := (files w)(next_tmp w := None), next_tmp := next_tmp w + 1,
               trace := trace w @ [TempFile (next_tmp w), WriteWav (next_tmp w) (frames c),
                 Transcribe (next_tmp w), Unlink (next_tmp w), PrintListening]\<rparr>)"
  using assms by (simp add: handle_defs)

lemma handle_callback_raises:
  assumes "frames c \<noteq> []" "speech_detected c"
    and "m (wav_of cfg (frames c)) = Inr result" "strip result \<noteq> []"
    and "cb (strip result) (ctl w) = (Some e, r)" "is_Exception e"
  shows "handle_utterance cfg m cb w c =
     (None, w\<lparr>ctl := r, files := (files w)(next_tmp w := None), next_tmp := next_tmp w + 1,
               trace := trace w @ [TempFile (next_tmp w), WriteWav (next_tmp w) (frames c),
                 Transcribe (next_tmp w)]
                 @ (if print_transcription_time cfg then [PrintTranscriptionTime] else [])
                 @ [Callback (strip result), PrintTranscriptionError e, Unlink (next_tmp w),
                    PrintListening]\<rparr>)"
  using assms by (simp add: handle_defs)

lemma handle_callback_returns:
  assumes "frames c \<noteq> []" "speech_detected c"
    and "m (wav_of cfg (frames c)) = Inr result" "strip result \<noteq> []"
    and "cb (strip result) (ctl w) = (None, r)"
  shows "handle_utterance cfg m cb w c =
     (None, w\<lparr>ctl := r, files := (files w)(next_tmp w := None), next_tmp := next_tmp w + 1,
               trace := trace w @ [TempFile (next_tmp w), WriteWav (next_tmp w) (frames c),
                 Transcribe (next_tmp w)]
                 @ (if print_transcription_time cfg then [PrintTranscriptionTime] else [])
                 @ [Callback (strip result), Unlink (next_tmp w), PrintListening]\<rparr>)"
  using assms by (simp add: handle_defs)

lemma handle_utterance_called_text:
  assumes "frames c \<noteq> []" "speech_detected c"
    and "m (wav_of cfg (frames c)) = Inr result" "strip result \<noteq> []"
  shows "called (trace (snd (handle_utterance cfg m cb w c))) = called (trace w) @ [strip result]"
  using assms
  by (auto simp: handle_defs obs_append split: sum.splits prod.splits option.splits)


lemma leave_inner_outer:
  "handle_utterance cfg m cb w c = (None, w') \<Longrightarrow> leave_inner cfg m cb w c = outer_check w'"
  by (simp add: leave_inner_def)

lemma inner_body_called:
  "inner_body cfg d w c = Inr (fl, w1, c1) \<Longrightarrow> called (trace w1) = called (trace w)"
  by (auto simp: inner_body_def say_def obs_append split: if_splits sum.splits)

lemma leave_inner_called:
  "set (called (trace (world_of (leave_inner cfg m cb w c))))
     \<subseteq> set (called (trace w)) \<union> {t. t \<noteq> [] \<and> strip t = t}"
proof -
  obtain x w' where h: "handle_utterance cfg m cb w c = (x, w')"
    by (cases "handle_utterance cfg m cb w c")
  then have "set (called (trace w')) \<subseteq> set (called (trace w)) \<union> {t. t \<noteq> [] \<and> strip t = t}"
    using handle_utterance_called [of cfg m cb w c] by simp
  then show ?thesis
    using h by (cases x) (simp_all add: leave_inner_def outer_check_def say_def obs_append)
qed

lemma feed_called:
  "set (called (trace (world_of (feed cfg m cb w c rd))))
     \<subseteq> set (called (trace w)) \<union> {t. t \<noteq> [] \<and> strip t = t}"
proof -
  let ?w0 = "if stopped rd then w\<lparr>ctl := (ctl w)\<lparr>is_recording := False\<rparr>\<rparr> else w"
  have w0: "called (trace ?w0) = called (trace w)"
    by simp
  show ?thesis
  proof (cases "inner_body cfg (data rd) ?w0 c")
    case (Inl e)
    then show ?thesis
      by (simp add: feed_def)
  next
    case (Inr p)
    obtain fl w1 c1 where p: "p = (fl, w1, c1)"
      by (cases p)
    have c: "called (trace w1) = called (trace w)"
      using inner_body_called [of cfg "data rd" ?w0 c fl w1 c1] Inr p w0 by simp
    show ?thesis
    proof (cases "fl = Continue \<and> is_recording (ctl w1)")
      case True
      then show ?thesis
        using Inr p c by (simp add: feed_def)
    next
      case False
      then have "feed cfg m cb w c rd = leave_inner cfg m cb w1 c1"
        using Inr p by (auto simp: feed_def)
      then show ?thesis
        using leave_inner_called [of cfg m cb w1 c1] c by simp
    qed
  qed
qed

lemma run_called:
  "set (called (trace (world_of (run cfg m cb st rds))))
     \<subseteq> set (called (trace (world_of st))) \<union> {t. t \<noteq> [] \<and> strip t = t}"
proof (induction rds arbitrary: st)
  case Nil
  then show ?case by simp
next
  case (Cons rd rds)
  show ?case
  proof (cases st)
    case (Reading w c)
    have "set (called (trace (world_of (run cfg m cb (feed cfg m cb w c rd) rds))))
        \<subseteq> set (called (trace (world_of (feed cfg m cb w c rd)))) \<union> {t. t \<noteq> [] \<and> strip t = t}"
      by (rule Cons.IH)
    then show ?thesis
      using feed_called [of cfg m cb w c rd] Reading by auto
  next
    case (Returned w)
    then show ?thesis by simp
  next
    case (Raised e w)
    then show ?thesis by simp
  qed
qed

lemma record_audio_called:
  "set (called (trace (world_of (record_audio cfg m cb w rds))))
     \<subseteq> set (called (trace w)) \<union> {t. t \<noteq> [] \<and> strip t = t}"
proof -
  have "called (trace (world_of (outer_check (say PrintListening (say StreamOpen w)))))
      = called (trace w)"
    by (simp add: outer_check_def say_def obs_append)
  then show ?thesis
    unfolding record_audio_def
    using run_called [of cfg m cb "outer_check (say PrintListening (say StreamOpen w))" rds]
    by simp
qed

subsection \<open>A stop from another thread, and two concrete runs\<close>

lemma feed_stopped:
  assumes "speech_detected c" "stopped rd" "chunk_size cfg \<noteq> 0"
  shows "feed cfg m cb w c rd =
     leave_inner cfg m cb (w\<lparr>ctl := (ctl w)\<lparr>is_recording := False\<rparr>\<rparr>)
       (c\<lparr>frames := frames c @ [data rd],
          silence_count := (if is_silence cfg (data rd) then silence_count c + 1 else 0)\<rparr>)"
proof (cases "is_silence cfg (data rd)")
  case True
  then show ?thesis
    using assms by (simp add: feed_def inner_body_def silence_limit_def)
next
  case False
  have "c\<lparr>frames := frames c @ [data rd], silence_count := 0, speech_detected := True\<rparr>
      = c\<lparr>frames := frames c @ [data rd], silence_count := 0\<rparr>"
    using assms(1) by (cases c) simp
  moreover have "feed cfg m cb w c rd =
      leave_inner cfg m cb (w\<lparr>ctl := (ctl w)\<lparr>is_recording := False\<rparr>\<rparr>)
        (c\<lparr>frames := frames c @ [data rd], silence_count := 0, speech_detected := True\<rparr>)"
    using False assms by (simp add: feed_def inner_body_def)
  ultimately show ?thesis
    using False by simp
qed

lemma leave_inner_transcribed:
  assumes "frames c \<noteq> []" "speech_detected c"
  shows "transcribed (trace (world_of (leave_inner cfg m cb w c)))
     = transcribed (trace w) @ [next_tmp w]"
proof -
  obtain x w' where h: "handle_utterance cfg m cb w c = (x, w')"
    by (cases "handle_utterance cfg m cb w c")
  then have "transcribed (trace w') = transcribed (trace w) @ [next_tmp w]"
    using handle_utterance_transcribed [OF assms, of cfg m cb w] by simp
  then show ?thesis
    using h by (cases x) (simp_all add: leave_inner_def outer_check_def say_def obs_append)
qed

lemma leave_inner_called_text:
  assumes "frames c \<noteq> []" "speech_detected c"
    and "m (wav_of cfg (frames c)) = Inr result" "strip result \<noteq> []"
  shows "called (trace (world_of (leave_inner cfg m cb w c))) = called (trace w) @ [strip result]"
proof -
  obtain x w' where h: "handle_utterance cfg m cb w c = (x, w')"
    by (cases "handle_utterance cfg m cb w c")
  then have "called (trace w') = called (trace w) @ [strip result]"
    using assms handle_utterance_called_text [where cfg = cfg and m = m and cb = cb and w = w
        and c = c and result = result]
    by simp
  then show ?thesis
    using h by (cases x) (simp_all add: leave_inner_def outer_check_def say_def obs_append)
qed

lemma rec_started: "is_recording (ctl started)"
  by (simp add: started_def)

lemma strip_hi: "strip [32, 104, 105, 32] = [104, 105]" "strip [104, 105] = [104, 105]"
  by (simp_all add: strip_def py_isspace_def)

lemma record_audio_default_speech:
  "record_audio default_config m cb started (Read [16384] False # rds) =
     run default_config m cb
       (Reading (started\<lparr>trace := [StreamOpen, PrintListening, PrintSpeechDetected]\<rparr>) speech1) rds"
  using record_audio_speech_first [OF rec_started, of default_config "Read [16384] False" m cb rds]
  by (simp add: speech_loud started_heard speech1_def)

lemma record_audio_default_utterance:
  "record_audio default_config m cb started (Read [16384] False # replicate 32 (Read [0] False)) =
     leave_inner default_config m cb
       (started\<lparr>trace := [StreamOpen, PrintListening, PrintSpeechDetected]\<rparr>)
       \<lparr>frames = [16384] # replicate 32 [0], silence_count = 32, speech_detected = True\<rparr>"
proof -
  let ?w = "started\<lparr>trace := [StreamOpen, PrintListening, PrintSpeechDetected]\<rparr>"
  let ?rds = "replicate 32 (Read [0] False)"
  have "run default_config m cb (Reading ?w speech1) ?rds =
      leave_inner default_config m cb ?w
        (speech1\<lparr>frames := frames speech1 @ map data ?rds,
                  silence_count := break_count default_config\<rparr>)"
    by (rule run_to_break)
       (simp_all add: started_def speech1_def chunk_default silent_zero break_count_default)
  then show ?thesis
    by (simp add: record_audio_default_speech speech1_def break_count_default)
qed

section \<open>The claims\<close>

text \<open>
  C1, as stated: the loop has buffered one speech frame; the next read returns a silent
  frame (a silence count of 1, far below 32) while another thread calls \<open>stop()\<close>. The
  buffer of two frames is written out, transcribed, and the callback is called with the
  text, before the loop returns.
\<close>

theorem C1_flush_counterexample:
  "break_count default_config = 32
   \<and> record_audio default_config (\<lambda>f. Inr [104, 105]) (\<lambda>t r. (None, r)) started
        [Read [16384] False, Read [0] True]
     = Returned (started\<lparr>ctl := (ctl started)\<lparr>is_recording := False\<rparr>, next_tmp := 1,
          trace := [StreamOpen, PrintListening, PrintSpeechDetected, TempFile 0,
                    WriteWav 0 [[16384], [0]], Transcribe 0, PrintTranscriptionTime,
                    Callback [104, 105], Unlink 0, PrintListening, StreamClose]\<rparr>)"
proof -
  let ?m = "\<lambda>f::wav. (Inr [104, 105] :: exn + pystr)"
  let ?cb = "\<lambda>(t::pystr) (r::recorder). (None :: exn option, r)"
  let ?w1 = "started\<lparr>trace := [StreamOpen, PrintListening, PrintSpeechDetected]\<rparr>"
  let ?w2 = "?w1\<lparr>ctl := (ctl ?w1)\<lparr>is_recording := False\<rparr>\<rparr>"
  have "record_audio default_config ?m ?cb started [Read [16384] False, Read [0] True]
      = feed default_config ?m ?cb ?w1 speech1 (Read [0] True)"
    by (simp add: record_audio_default_speech)
  also have "\<dots> = leave_inner default_config ?m ?cb ?w2
      (speech1\<lparr>frames := frames speech1 @ [data (Read [0] True)],
         silence_count := (if is_silence default_config (data (Read [0] True))
                           then silence_count speech1 + 1 else 0)\<rparr>)"
    by (rule feed_stopped) (simp_all add: speech1_def chunk_default)
  also have "\<dots> = leave_inner default_config ?m ?cb ?w2 speech2"
    by (simp add: speech1_def speech2_def silent_zero)
  also have "\<dots> = Returned (started\<lparr>ctl := (ctl started)\<lparr>is_recording := False\<rparr>, next_tmp := 1,
          trace := [StreamOpen, PrintListening, PrintSpeechDetected, TempFile 0,
                    WriteWav 0 [[16384], [0]], Transcribe 0, PrintTranscriptionTime,
                    Callback [104, 105], Unlink 0, PrintListening, StreamClose]\<rparr>)"
    by (simp add: leave_inner_def outer_check_def handle_defs speech2_def started_def
        default_config_def strip_hi)
  finally show ?thesis
    by (simp add: break_count_default)
qed

text \<open>
  C1, amended. When the flag is cleared by another thread while the loop is capturing
  (chunk size not zero), the buffer is not discarded: with the frame of the read in
  progress appended it is written out and given to the model, and the callback is called
  with the stripped text whenever that text is not empty.
\<close>

theorem C1_stop_flushes:
  assumes "speech_detected c" "stopped rd" "chunk_size cfg \<noteq> 0"
  shows "emitted (trace (world_of (feed cfg m cb w c rd)))
           = emitted (trace w) @ [frames c @ [data rd]]
       \<and> transcribed (trace (world_of (feed cfg m cb w c rd)))
           = transcribed (trace w) @ [next_tmp w]
       \<and> (\<forall>result. m (wav_of cfg (frames c @ [data rd])) = Inr result \<and> strip result \<noteq> []
             \<longrightarrow> called (trace (world_of (feed cfg m cb w c rd)))
                   = called (trace w) @ [strip result])"
proof -
  let ?w = "w\<lparr>ctl := (ctl w)\<lparr>is_recording := False\<rparr>\<rparr>"
  let ?c = "c\<lparr>frames := frames c @ [data rd],
          silence_count := (if is_silence cfg (data rd) then silence_count c + 1 else 0)\<rparr>"
  have f: "feed cfg m cb w c rd = leave_inner cfg m cb ?w ?c"
    using assms by (rule feed_stopped)
  have c: "frames ?c \<noteq> []" "speech_detected ?c"
    using assms(1) by simp_all
  have "emitted (trace (world_of (leave_inner cfg m cb ?w ?c))) = emitted (trace ?w) @ [frames ?c]"
    using c by (rule leave_inner_emitted)
  moreover have "transcribed (trace (world_of (leave_inner cfg m cb ?w ?c)))
      = transcribed (trace ?w) @ [next_tmp ?w]"
    using c by (rule leave_inner_transcribed)
  moreover have "called (trace (world_of (leave_inner cfg m cb ?w ?c)))
      = called (trace ?w) @ [strip result]"
    if "m (wav_of cfg (frames c @ [data rd])) = Inr result" "strip result \<noteq> []" for result
    using c that by (intro leave_inner_called_text) simp_all
  ultimately show ?thesis
    by (simp add: f)
qed

theorem C1_stop_flushes_witness:
  "emitted (trace (world_of (feed default_config (\<lambda>f. Inr [104, 105]) (\<lambda>t r. (None, r))
       started speech1 (Read [0] True)))) = [[[16384], [0]]]
   \<and> transcribed (trace (world_of (feed default_config (\<lambda>f. Inr [104, 105]) (\<lambda>t r. (None, r))
       started speech1 (Read [0] True)))) = [0]
   \<and> called (trace (world_of (feed default_config (\<lambda>f. Inr [104, 105]) (\<lambda>t r. (None, r))
       started speech1 (Read [0] True)))) = [[104, 105]]"
proof -
  have a: "speech_detected speech1" "stopped (Read [0] True)"
    by (simp_all add: speech1_def)
  note t = C1_stop_flushes [where cfg = default_config and m = "\<lambda>f. Inr [104, 105]"
      and cb = "\<lambda>t r. (None, r)" and w = started and c = speech1 and rd = "Read [0] True",
      OF a chunk_default]
  have "called (trace (world_of (feed default_config (\<lambda>f. Inr [104, 105]) (\<lambda>t r. (None, r))
       started speech1 (Read [0] True)))) = called (trace started) @ [strip [104, 105]]"
    using t [THEN conjunct2, THEN conjunct2, THEN spec, of "[104, 105]"]
    by (simp add: strip_hi)
  then show ?thesis
    using t [THEN conjunct1] t [THEN conjunct2, THEN conjunct1]
    by (simp add: started_def speech1_def strip_hi)
qed

text \<open>
  C2. \<open>stop()\<close> called on the recording thread itself, as the callback of
  \<open>main_typer_assistant_alt.py\<close> does: the flag is cleared, then \<open>stop\<close> joins the
  thread it is running on, which raises \<open>RuntimeError\<close>. Inside \<open>process_text\<close> the
  error is caught, so whatever the assistant is, it is never reached and the flag stays
  cleared; with a callback that lets the error out, the loop prints it as a
  transcription error. In both cases the loop returns without another read.
\<close>

theorem C2_stop_joins_itself:
  "stop 1 (ctl started) = (Some RuntimeError, (ctl started)\<lparr>is_recording := False\<rparr>)
   \<and> process_text 1 (\<lambda>t. True) assistant [104, 105] (ctl started)
       = (None, (ctl started)\<lparr>is_recording := False\<rparr>)
   \<and> record_audio default_config (\<lambda>f. Inr [104, 105]) (\<lambda>t r. stop 1 r) started
        (Read [16384] False # replicate 32 (Read [0] False))
       = Returned (started\<lparr>ctl := (ctl started)\<lparr>is_recording := False\<rparr>, next_tmp := 1,
          trace := [StreamOpen, PrintListening, PrintSpeechDetected, TempFile 0,
                    WriteWav 0 ([16384] # replicate 32 [0]), Transcribe 0, PrintTranscriptionTime,
                    Callback [104, 105], PrintTranscriptionError RuntimeError, Unlink 0,
                    PrintListening, StreamClose]\<rparr>)
   \<and> record_audio default_config (\<lambda>f. Inr [104, 105]) (process_text 1 (\<lambda>t. True) assistant)
        started (Read [16384] False # replicate 32 (Read [0] False))
       = Returned (started\<lparr>ctl := (ctl started)\<lparr>is_recording := False\<rparr>, next_tmp := 1,
          trace := [StreamOpen, PrintListening, PrintSpeechDetected, TempFile 0,
                    WriteWav 0 ([16384] # replicate 32 [0]), Transcribe 0, PrintTranscriptionTime,
                    Callback [104, 105], Unlink 0, PrintListening, StreamClose]\<rparr>)"
proof -
  have s: "stop 1 (ctl started) = (Some RuntimeError, (ctl started)\<lparr>is_recording := False\<rparr>)"
    by (simp add: stop_def join_def started_def)
  have p: "process_text 1 (\<lambda>t. True) assistant [104, 105] (ctl started)
       = (None, (ctl started)\<lparr>is_recording := False\<rparr>)"
    unfolding process_text_def s by simp
  let ?w = "started\<lparr>trace := [StreamOpen, PrintListening, PrintSpeechDetected]\<rparr>"
  let ?c = "\<lparr>frames = [16384] # replicate 32 [0], silence_count = 32, speech_detected = True\<rparr>"
  have c: "frames ?c \<noteq> []" "speech_detected ?c"
    by simp_all
  have ctl: "ctl ?w = ctl started"
    by simp
  have h1: "handle_utterance default_config (\<lambda>f. Inr [104, 105]) (\<lambda>t r. stop 1 r) ?w ?c =
     (None, ?w\<lparr>ctl := (ctl started)\<lparr>is_recording := False\<rparr>,
               files := (files ?w)(next_tmp ?w := None), next_tmp := next_tmp ?w + 1,
               trace := trace ?w @ [TempFile (next_tmp ?w), WriteWav (next_tmp ?w) (frames ?c),
                 Transcribe (next_tmp ?w)]
                 @ (if print_transcription_time default_config then [PrintTranscriptionTime] else [])
                 @ [Callback (strip [104, 105]), PrintTranscriptionError RuntimeError,
                    Unlink (next_tmp ?w), PrintListening]\<rparr>)"
    using c s
    by (intro handle_callback_raises) (simp_all add: strip_hi)
  have h2: "handle_utterance default_config (\<lambda>f. Inr [104, 105])
        (process_text 1 (\<lambda>t. True) assistant) ?w ?c =
     (None, ?w\<lparr>ctl := (ctl started)\<lparr>is_recording := False\<rparr>,
               files := (files ?w)(next_tmp ?w := None), next_tmp := next_tmp ?w + 1,
               trace := trace ?w @ [TempFile (next_tmp ?w), WriteWav (next_tmp ?w) (frames ?c),
                 Transcribe (next_tmp ?w)]
                 @ (if print_transcription_time default_config then [PrintTranscriptionTime] else [])
                 @ [Callback (strip [104, 105]), Unlink (next_tmp ?w), PrintListening]\<rparr>)"
    using c p
    by (intro handle_callback_returns) (simp_all add: strip_hi)
  have r1: "record_audio default_config (\<lambda>f. Inr [104, 105]) (\<lambda>t r. stop 1 r) started
        (Read [16384] False # replicate 32 (Read [0] False))
       = Returned (started\<lparr>ctl := (ctl started)\<lparr>is_recording := False\<rparr>, next_tmp := 1,
          trace := [StreamOpen, PrintListening, PrintSpeechDetected, TempFile 0,
                    WriteWav 0 ([16384] # replicate 32 [0]), Transcribe 0, PrintTranscriptionTime,
                    Callback [104, 105], PrintTranscriptionError RuntimeError, Unlink 0,
                    PrintListening, StreamClose]\<rparr>)"
    unfolding record_audio_default_utterance leave_inner_def h1
    by (simp add: outer_check_def say_def started_def default_config_def strip_hi)
  have r2: "record_audio default_config (\<lambda>f. Inr [104, 105]) (process_text 1 (\<lambda>t. True) assistant)
        started (Read [16384] False # replicate 32 (Read [0] False))
       = Returned (started\<lparr>ctl := (ctl started)\<lparr>is_recording := False\<rparr>, next_tmp := 1,
          trace := [StreamOpen, PrintListening, PrintSpeechDetected, TempFile 0,
                    WriteWav 0 ([16384] # replicate 32 [0]), Transcribe 0, PrintTranscriptionTime,
                    Callback [104, 105], Unlink 0, PrintListening, StreamClose]\<rparr>)"
    unfolding record_audio_default_utterance leave_inner_def h2
    by (simp add: outer_check_def say_def started_def default_config_def strip_hi)
  show ?thesis
    using s p r1 r2 by (intro conjI)
qed







text \<open>
  C5. With a sample rate of 16000, a chunk size of 1024 and a silence duration of 2.0, one
  speech frame followed by 32 silent frames makes the loop hand on exactly one utterance
  buffer, of exactly 33 frames; with only 31 silent frames after the speech frame nothing
  has been handed on yet, and the loop waits for the next frame with the 32 frames
  buffered.
\<close>

theorem C5_scenario:
  assumes cfg: "sample_rate cfg = 16000" "chunk_size cfg = 1024" "silence_duration cfg = 2"
    and rec: "is_recording (ctl w)"
    and s: "\<not> is_silence cfg (data s)" "\<not> stopped s"
    and zs: "\<forall>rd\<in>set zs. is_silence cfg (data rd) \<and> \<not> stopped rd"
  shows "(length zs = 32 \<longrightarrow>
            emitted (trace (world_of (record_audio cfg m cb w (s # zs))))
              = emitted (trace w) @ [data s # map data zs]
            \<and> length (data s # map data zs) = 33)
       \<and> (length zs = 31 \<longrightarrow>
            (\<exists>w' c. record_audio cfg m cb w (s # zs) = Reading w' c
                \<and> emitted (trace w') = emitted (trace w)
                \<and> frames c = data s # map data zs))"
proof -
  let ?w = "say PrintListening (say StreamOpen w)"
  let ?c = "\<lparr>frames = [data s], silence_count = 0, speech_detected = True\<rparr>"
  have b: "break_count cfg = 32"
    by (simp add: break_count_def quotient_default_fields cfg)
  have chunk: "chunk_size cfg \<noteq> 0" by (simp add: cfg)
  have rec': "is_recording (ctl ?w)" "is_recording (ctl (heard fresh ?w))"
    using rec by (simp_all add: say_def heard_def)
  have first: "record_audio cfg m cb w (s # zs) = run cfg m cb (Reading (heard fresh ?w) ?c) zs"
    using rec rec' s by (simp add: record_audio_start feed_speech fresh_def)
  have long: "emitted (trace (world_of (record_audio cfg m cb w (s # zs))))
              = emitted (trace w) @ [data s # map data zs]" if "length zs = 32"
  proof -
    have "zs \<noteq> []" using that by auto
    then have "run cfg m cb (Reading (heard fresh ?w) ?c) zs =
        leave_inner cfg m cb (heard fresh ?w)
          (?c\<lparr>frames := frames ?c @ map data zs, silence_count := break_count cfg\<rparr>)"
      using rec' chunk zs that b by (intro run_to_break) simp_all
    then show ?thesis
      by (simp add: first leave_inner_emitted emitted_start)
  qed
  have short: "\<exists>w' c. record_audio cfg m cb w (s # zs) = Reading w' c
                \<and> emitted (trace w') = emitted (trace w)
                \<and> frames c = data s # map data zs" if "length zs = 31"
  proof -
    have "run cfg m cb (Reading (heard fresh ?w) ?c) zs =
        Reading (heard fresh ?w)
          (?c\<lparr>frames := frames ?c @ map data zs, silence_count := silence_count ?c + length zs\<rparr>)"
      using rec' chunk zs that b by (intro run_capture_silence) simp_all
    then show ?thesis
      by (simp add: first emitted_start)
  qed
  show ?thesis using long short by simp
qed

theorem C5_scenario_witness:
  "emitted (trace (world_of (record_audio default_config (\<lambda>f. Inr [104, 105]) (\<lambda>t r. (None, r))
       started (Read [16384] False # replicate 32 (Read [0] False)))))
     = [[16384] # replicate 32 [0]]"
  using C5_scenario [of default_config started "Read [16384] False" "replicate 32 (Read [0] False)"
      "\<lambda>f. Inr [104, 105]" "\<lambda>t r. (None, r)"] silent_zero speech_loud
  by (simp add: default_config_def started_def)




text \<open>
  C7, as stated, where the quotient is an exact integer: with a chunk size of 1000 the
  silence-frame-count is 32, and of 34 trailing silent frames the buffer holds 33.
\<close>

theorem C7_integer_counterexample:
  "silence_frame_count even_config = 32
   \<and> emitted (trace (world_of (record_audio even_config (\<lambda>f. Inr [104, 105]) (\<lambda>t r. (None, r))
        started ([Read [0] False, Read [0] False] @ [Read [16384] False]
                  @ replicate 34 (Read [0] False)))))
     = [[16384] # replicate 33 [0]]"
proof -
  have "emitted (trace (world_of (record_audio even_config (\<lambda>f. Inr [104, 105]) (\<lambda>t r. (None, r))
        started ([Read [0] False, Read [0] False] @ [Read [16384] False]
                  @ replicate 34 (Read [0] False)))))
     = emitted (trace started)
        @ [map data [Read [16384] False]
            @ map data (take (break_count even_config) (replicate 34 (Read [0] False)))]"
    by (rule record_audio_utterance)
       (simp_all add: started_def chunk_even silent_zero_even speech_loud_even break_count_even)
  then show ?thesis
    by (simp add: silence_frame_count_even break_count_even started_def)
qed

text \<open>
  C7, amended. For a chunk size other than zero and a computed quotient \<open>q\<close> that is a
  finite double and not negative, with the loop running and no stop from another thread:
  on leading silent frames, then at least one speech frame, then more trailing silent
  frames than the silence-frame-count, exactly one buffer is handed on. It holds none of
  the leading silent frames, all speech frames and the first \<open>floor q + 1\<close> trailing
  silent frames, in the order read. That number is at most the silence-frame-count plus
  one, and is the silence-frame-count when \<open>q\<close> is not an integer.
\<close>

theorem C7_one_utterance:
  assumes cfg: "chunk_size cfg \<noteq> 0" "silence_quotient cfg = Val q" "0 \<le> q"
    and rec: "is_recording (ctl w)"
    and lead: "\<forall>rd\<in>set ls. is_silence cfg (data rd) \<and> \<not> stopped rd"
    and speech: "\<forall>rd\<in>set ms. \<not> is_silence cfg (data rd) \<and> \<not> stopped rd" "ms \<noteq> []"
    and trail: "\<forall>rd\<in>set ks. is_silence cfg (data rd) \<and> \<not> stopped rd"
    and len: "silence_frame_count cfg < int (length ks)"
  shows "emitted (trace (world_of (record_audio cfg m cb w (ls @ ms @ ks))))
           = emitted (trace w) @ [map data ms @ map data (take (break_count cfg) ks)]
       \<and> length (take (break_count cfg) ks) = break_count cfg
       \<and> break_count cfg = nat \<lfloor>q\<rfloor> + 1
       \<and> int (break_count cfg) \<le> silence_frame_count cfg + 1
       \<and> (q \<notin> \<int> \<longrightarrow> int (break_count cfg) = silence_frame_count cfg)"
proof -
  have bq: "break_count cfg = nat \<lfloor>q\<rfloor> + 1"
    using cfg(2) by (simp add: break_count_def)
  have ce: "int (break_count cfg) =
      (if q \<in> \<int> then silence_frame_count cfg + 1 else silence_frame_count cfg)"
    using cfg(2,3) by (rule break_count_ceiling)
  then have le: "int (break_count cfg) \<le> silence_frame_count cfg + 1"
    by (simp split: if_splits)
  then have b: "break_count cfg \<le> length ks"
    using len by linarith
  have pos: "0 < break_count cfg"
    using bq by simp
  have "emitted (trace (world_of (record_audio cfg m cb w (ls @ ms @ ks))))
      = emitted (trace w) @ [map data ms @ map data (take (break_count cfg) ks)]"
    using rec cfg(1) pos lead speech trail b by (rule record_audio_utterance)
  then show ?thesis
    using le b bq ce by simp
qed

theorem C7_one_utterance_witness:
  "emitted (trace (world_of (record_audio default_config (\<lambda>f. Inr [104, 105]) (\<lambda>t r. (None, r))
        started (replicate 5 (Read [0] False) @ [Read [16384] False, Read [- 16384] False]
                  @ replicate 40 (Read [0] False)))))
     = [[[16384], [- 16384]] @ replicate 32 [0]]"
proof -
  have cfg: "chunk_size default_config \<noteq> 0" "silence_quotient default_config = Val (125 / 4)"
      "(0::real) \<le> 125 / 4"
    by (simp_all add: chunk_default quotient_default)
  have rec: "is_recording (ctl started)"
    by (simp add: started_def)
  have loud: "\<not> is_silence default_config [- 16384]"
    by (simp add: is_silence_def normalized_rms_loud_neg default_config_def)
  have lead: "\<forall>rd\<in>set (replicate 5 (Read [0] False)).
      is_silence default_config (data rd) \<and> \<not> stopped rd"
    by (simp add: silent_zero)
  have speech: "\<forall>rd\<in>set [Read [16384] False, Read [- 16384] False].
      \<not> is_silence default_config (data rd) \<and> \<not> stopped rd"
      "[Read [16384] False, Read [- 16384] False] \<noteq> []"
    by (simp_all add: speech_loud loud)
  have trail: "\<forall>rd\<in>set (replicate 40 (Read [0] False)).
      is_silence default_config (data rd) \<and> \<not> stopped rd"
    by (simp add: silent_zero)
  have len: "silence_frame_count default_config < int (length (replicate 40 (Read [0] False)))"
    by (simp add: silence_frame_count_default)
  show ?thesis
    using C7_one_utterance [OF cfg rec lead speech trail len,
        of "\<lambda>f. Inr [104, 105]" "\<lambda>t r. (None, r)"]
    by (simp add: break_count_default started_def)
qed

text \<open>
  C8. When the model raises an \<open>Exception\<close> on the buffer, the block after the inner
  loop ends without an exception: the error is printed, the callback is not called, the
  temporary file made for the call is gone, the flag is untouched, and the loop goes on to
  its outer test, which sends it back to reading when the flag is still set. Whatever the
  model and the callback do, the temporary file is gone after the block.
\<close>

theorem C8_model_error_contained:
  assumes "frames c \<noteq> []" "speech_detected c"
    and "m (wav_of cfg (frames c)) = Inl e" "is_Exception e"
  shows "(\<exists>w'. handle_utterance cfg m cb w c = (None, w')
            \<and> leave_inner cfg m cb w c = outer_check w'
            \<and> (is_recording (ctl w) \<longrightarrow> leave_inner cfg m cb w c = Reading w' fresh)
            \<and> ctl w' = ctl w
            \<and> called (trace w') = called (trace w)
            \<and> errors (trace w') = errors (trace w) @ [e]
            \<and> trace w' = trace w @ [TempFile (next_tmp w), WriteWav (next_tmp w) (frames c),
                  Transcribe (next_tmp w), PrintTranscriptionError e, Unlink (next_tmp w),
                  PrintListening]
            \<and> files w' (next_tmp w) = None)
       \<and> files (snd (handle_utterance cfg m' cb' w c)) (next_tmp w) = None"
proof
  let ?w = "w\<lparr>files := (files w)(next_tmp w := None), next_tmp := next_tmp w + 1,
               trace := trace w @ [TempFile (next_tmp w), WriteWav (next_tmp w) (frames c),
                 Transcribe (next_tmp w), PrintTranscriptionError e, Unlink (next_tmp w),
                 PrintListening]\<rparr>"
  have h: "handle_utterance cfg m cb w c = (None, ?w)"
    using assms by (rule handle_model_raises)
  then have l: "leave_inner cfg m cb w c = outer_check ?w"
    by (rule leave_inner_outer)
  have "is_recording (ctl w) \<longrightarrow> leave_inner cfg m cb w c = Reading ?w fresh"
    by (simp add: l outer_check_def)
  moreover have "called (trace ?w) = called (trace w)" "errors (trace ?w) = errors (trace w) @ [e]"
    by (simp_all add: obs_append)
  ultimately show "\<exists>w'. handle_utterance cfg m cb w c = (None, w')
            \<and> leave_inner cfg m cb w c = outer_check w'
            \<and> (is_recording (ctl w) \<longrightarrow> leave_inner cfg m cb w c = Reading w' fresh)
            \<and> ctl w' = ctl w
            \<and> called (trace w') = called (trace w)
            \<and> errors (trace w') = errors (trace w) @ [e]
            \<and> trace w' = trace w @ [TempFile (next_tmp w), WriteWav (next_tmp w) (frames c),
                  Transcribe (next_tmp w), PrintTranscriptionError e, Unlink (next_tmp w),
                  PrintListening]
            \<and> files w' (next_tmp w) = None"
    using h l by (intro exI [of _ ?w]) simp
next
  show "files (snd (handle_utterance cfg m' cb' w c)) (next_tmp w) = None"
    using assms(1,2) by (simp add: handle_utterance_files)
qed

theorem C8_model_error_contained_witness:
  "leave_inner default_config (\<lambda>f. Inl (UserError 7)) (\<lambda>t r. (None, r)) started speech2
     = Reading (started\<lparr>next_tmp := 1,
          trace := [TempFile 0, WriteWav 0 [[16384], [0]], Transcribe 0,
                    PrintTranscriptionError (UserError 7), Unlink 0, PrintListening]\<rparr>) fresh"
proof -
  have a: "frames speech2 \<noteq> []" "speech_detected speech2"
    by (simp_all add: speech2_def)
  have b: "(\<lambda>f. Inl (UserError 7)) (wav_of default_config (frames speech2)) = Inl (UserError 7)"
      "is_Exception (UserError 7)"
    by simp_all
  obtain w' where w':
    "is_recording (ctl started) \<longrightarrow>
       leave_inner default_config (\<lambda>f. Inl (UserError 7)) (\<lambda>t r. (None, r)) started speech2
         = Reading w' fresh"
    "handle_utterance default_config (\<lambda>f. Inl (UserError 7)) (\<lambda>t r. (None, r)) started speech2
       = (None, w')"
    using C8_model_error_contained [where cfg = default_config
        and m = "\<lambda>f. Inl (UserError 7)" and cb = "\<lambda>t r. (None, r)" and w = started
        and c = speech2 and e = "UserError 7", OF a b, THEN conjunct1]
    by (elim exE conjE) (rule that)
  have "w' = started\<lparr>next_tmp := 1,
          trace := [TempFile 0, WriteWav 0 [[16384], [0]], Transcribe 0,
                    PrintTranscriptionError (UserError 7), Unlink 0, PrintListening]\<rparr>"
    using w'(2) by (simp add: handle_defs started_def speech2_def)
  then show ?thesis
    using w'(1) by (simp add: started_def)
qed

text \<open>
  C9. When the stripped text is empty the callback is not called and no error is printed;
  the temporary file is removed and the loop goes on as after any utterance. In every run
  of the loop, every text the callback is called with is stripped and not empty.
\<close>

theorem C9_empty_text_ignored:
  assumes "frames c \<noteq> []" "speech_detected c"
    and "m (wav_of cfg (frames c)) = Inr result" "strip result = []"
  shows "(\<exists>w'. handle_utterance cfg m cb w c = (None, w')
            \<and> leave_inner cfg m cb w c = outer_check w'
            \<and> (is_recording (ctl w) \<longrightarrow> leave_inner cfg m cb w c = Reading w' fresh)
            \<and> ctl w' = ctl w
            \<and> called (trace w') = called (trace w)
            \<and> errors (trace w') = errors (trace w)
            \<and> trace w' = trace w @ [TempFile (next_tmp w), WriteWav (next_tmp w) (frames c),
                  Transcribe (next_tmp w), Unlink (next_tmp w), PrintListening])
       \<and> (\<forall>t \<in> set (called (trace (world_of (record_audio cfg m cb w rds)))).
            t \<in> set (called (trace w)) \<or> (t \<noteq> [] \<and> strip t = t))"
proof
  let ?w = "w\<lparr>files := (files w)(next_tmp w := None), next_tmp := next_tmp w + 1,
               trace := trace w @ [TempFile (next_tmp w), WriteWav (next_tmp w) (frames c),
                 Transcribe (next_tmp w), Unlink (next_tmp w), PrintListening]\<rparr>"
  have h: "handle_utterance cfg m cb w c = (None, ?w)"
    using assms by (rule handle_empty_text)
  then have l: "leave_inner cfg m cb w c = outer_check ?w"
    by (rule leave_inner_outer)
  have "is_recording (ctl w) \<longrightarrow> leave_inner cfg m cb w c = Reading ?w fresh"
    by (simp add: l outer_check_def)
  moreover have "called (trace ?w) = called (trace w)" "errors (trace ?w) = errors (trace w)"
    by (simp_all add: obs_append)
  ultimately show "\<exists>w'. handle_utterance cfg m cb w c = (None, w')
            \<and> leave_inner cfg m cb w c = outer_check w'
            \<and> (is_recording (ctl w) \<longrightarrow> leave_inner cfg m cb w c = Reading w' fresh)
            \<and> ctl w' = ctl w
            \<and> called (trace w') = called (trace w)
            \<and> errors (trace w') = errors (trace w)
            \<and> trace w' = trace w @ [TempFile (next_tmp w), WriteWav (next_tmp w) (frames c),
                  Transcribe (next_tmp w), Unlink (next_tmp w), PrintListening]"
    using h l by (intro exI [of _ ?w]) simp
next
  show "\<forall>t \<in> set (called (trace (world_of (record_audio cfg m cb w rds)))).
            t \<in> set (called (trace w)) \<or> (t \<noteq> [] \<and> strip t = t)"
    using record_audio_called [of cfg m cb w rds] by auto
qed

theorem C9_empty_text_ignored_witness:
  "leave_inner default_config picky_model (\<lambda>t r. (None, r)) started speech2
     = Reading (started\<lparr>next_tmp := 1,
          trace := [TempFile 0, WriteWav 0 [[16384], [0]], Transcribe 0, Unlink 0,
                    PrintListening]\<rparr>) fresh
   \<and> called (trace (world_of (record_audio default_config picky_model (\<lambda>t r. (None, r)) started
          (Read [16384] False # replicate 32 (Read [0] False))))) = [[104, 105]]
   \<and> [104, 105] \<noteq> ([] :: pystr) \<and> strip [104, 105] = [104, 105]"
proof -
  let ?cb = "\<lambda>(t::pystr) (r::recorder). (None :: exn option, r)"
  let ?rds = "Read [16384] False # replicate 32 (Read [0] False)"
  have a: "frames speech2 \<noteq> []" "speech_detected speech2"
    by (simp_all add: speech2_def)
  have b: "picky_model (wav_of default_config (frames speech2)) = Inr [32, 10]"
      "strip [32, 10] = []"
    by (simp_all add: picky_model_def wav_of_def speech2_def strip_def py_isspace_def)
  note t = C9_empty_text_ignored [where cfg = default_config and m = picky_model and cb = ?cb
      and w = started and c = speech2 and result = "[32, 10]" and rds = ?rds, OF a b]
  obtain w' where w':
    "is_recording (ctl started) \<longrightarrow>
       leave_inner default_config picky_model ?cb started speech2 = Reading w' fresh"
    "handle_utterance default_config picky_model ?cb started speech2 = (None, w')"
    using t [THEN conjunct1] by (elim exE conjE) (rule that)
  have "w' = started\<lparr>next_tmp := 1,
          trace := [TempFile 0, WriteWav 0 [[16384], [0]], Transcribe 0, Unlink 0,
                    PrintListening]\<rparr>"
    using w'(2) b
    by (simp add: handle_defs started_def speech2_def)
  then have first: "leave_inner default_config picky_model ?cb started speech2
     = Reading (started\<lparr>next_tmp := 1,
          trace := [TempFile 0, WriteWav 0 [[16384], [0]], Transcribe 0, Unlink 0,
                    PrintListening]\<rparr>) fresh"
    using w'(1) by (simp add: started_def)
  let ?c = "\<lparr>frames = [16384] # replicate 32 [0], silence_count = 32, speech_detected = True\<rparr>"
  let ?w = "started\<lparr>trace := [StreamOpen, PrintListening, PrintSpeechDetected]\<rparr>"
  have "length (pcm (wav_of default_config (frames ?c))) = 33"
    by (simp add: wav_of_def length_concat sum_list_replicate)
  then have "pcm (wav_of default_config (frames ?c)) \<noteq> [16384, 0]"
    by auto
  then have m: "picky_model (wav_of default_config (frames ?c)) = Inr [32, 104, 105, 32]"
    by (simp add: picky_model_def)
  have "called (trace (world_of (leave_inner default_config picky_model ?cb ?w ?c)))
      = called (trace ?w) @ [strip [32, 104, 105, 32]]"
    using m by (intro leave_inner_called_text) (simp_all add: strip_hi)
  then have run: "called (trace (world_of (record_audio default_config picky_model ?cb started ?rds)))
      = [[104, 105]]"
    by (simp add: record_audio_default_utterance strip_hi)
  have "called (trace started) = []"
    by (simp add: started_def)
  then have "[104, 105] \<noteq> ([] :: pystr) \<and> strip [104, 105] = [104, 105]"
    using t [THEN conjunct2, THEN bspec, of "[104, 105]"] run by simp
  then show ?thesis
    using first run by simp
qed

text \<open>
  C10. When the callback raises an \<open>Exception\<close>, the handler around the model call
  catches it: it is printed as a transcription error, the temporary file is removed, and
  the loop goes on to its outer test, back to reading when the flag is still set after
  the callback.
\<close>

theorem C10_callback_error_contained:
  assumes "frames c \<noteq> []" "speech_detected c"
    and "m (wav_of cfg (frames c)) = Inr result" "strip result \<noteq> []"
    and "cb (strip result) (ctl w) = (Some e, r)" "is_Exception e"
  shows "\<exists>w'. handle_utterance cfg m cb w c = (None, w')
           \<and> leave_inner cfg m cb w c = outer_check w'
           \<and> (is_recording r \<longrightarrow> leave_inner cfg m cb w c = Reading w' fresh)
           \<and> ctl w' = r
           \<and> called (trace w') = called (trace w) @ [strip result]
           \<and> errors (trace w') = errors (trace w) @ [e]
           \<and> trace w' = trace w @ [TempFile (next_tmp w), WriteWav (next_tmp w) (frames c),
                 Transcribe (next_tmp w)]
                 @ (if print_transcription_time cfg then [PrintTranscriptionTime] else [])
                 @ [Callback (strip result), PrintTranscriptionError e, Unlink (next_tmp w),
                    PrintListening]
           \<and> files w' (next_tmp w) = None"
proof -
  let ?w = "w\<lparr>ctl := r, files := (files w)(next_tmp w := None), next_tmp := next_tmp w + 1,
               trace := trace w @ [TempFile (next_tmp w), WriteWav (next_tmp w) (frames c),
                 Transcribe (next_tmp w)]
                 @ (if print_transcription_time cfg then [PrintTranscriptionTime] else [])
                 @ [Callback (strip result), PrintTranscriptionError e, Unlink (next_tmp w),
                    PrintListening]\<rparr>"
  have h: "handle_utterance cfg m cb w c = (None, ?w)"
    using assms by (rule handle_callback_raises)
  then have l: "leave_inner cfg m cb w c = outer_check ?w"
    by (rule leave_inner_outer)
  have "is_recording r \<longrightarrow> leave_inner cfg m cb w c = Reading ?w fresh"
    by (simp add: l outer_check_def)
  moreover have "called (trace ?w) = called (trace w) @ [strip result]"
      "errors (trace ?w) = errors (trace w) @ [e]"
    by (simp_all add: obs_append)
  ultimately show ?thesis
    using h l by (intro exI [of _ ?w]) simp
qed

theorem C10_callback_error_contained_witness:
  "leave_inner default_config (\<lambda>f. Inr [32, 104, 105]) (\<lambda>t r. (Some (UserError 3), r)) started speech2
     = Reading (started\<lparr>next_tmp := 1,
          trace := [TempFile 0, WriteWav 0 [[16384], [0]], Transcribe 0, PrintTranscriptionTime,
                    Callback [104, 105], PrintTranscriptionError (UserError 3), Unlink 0,
                    PrintListening]\<rparr>) fresh"
proof -
  have a: "frames speech2 \<noteq> []" "speech_detected speech2"
    by (simp_all add: speech2_def)
  have b: "(\<lambda>f. Inr [32, 104, 105]) (wav_of default_config (frames speech2)) = Inr [32, 104, 105]"
      "strip [32, 104, 105] \<noteq> []"
      "(\<lambda>t r. (Some (UserError 3), r)) (strip [32, 104, 105]) (ctl started)
         = (Some (UserError 3), ctl started)"
      "is_Exception (UserError 3)"
    by (simp_all add: strip_def py_isspace_def)
  obtain w' where w':
    "is_recording (ctl started) \<longrightarrow>
       leave_inner default_config (\<lambda>f. Inr [32, 104, 105]) (\<lambda>t r. (Some (UserError 3), r))
         started speech2 = Reading w' fresh"
    "handle_utterance default_config (\<lambda>f. Inr [32, 104, 105]) (\<lambda>t r. (Some (UserError 3), r))
       started speech2 = (None, w')"
    using C10_callback_error_contained [where cfg = default_config
        and m = "\<lambda>f. Inr [32, 104, 105]" and cb = "\<lambda>t r. (Some (UserError 3), r)"
        and w = started and c = speech2 and result = "[32, 104, 105]"
        and e = "UserError 3" and r = "ctl started", OF a b]
    by (elim exE conjE) (rule that)
  have "w' = started\<lparr>next_tmp := 1,
          trace := [TempFile 0, WriteWav 0 [[16384], [0]], Transcribe 0, PrintTranscriptionTime,
                    Callback [104, 105], PrintTranscriptionError (UserError 3), Unlink 0,
                    PrintListening]\<rparr>"
    using w'(2)
    by (simp add: handle_defs started_def speech2_def default_config_def strip_def py_isspace_def)
  then show ?thesis
    using w'(1) by (simp add: started_def)
qed

end
